theory Spec2Isabelle
  imports Main "HOL-Library.List_Lexorder" "HOL-Library.Product_Lexorder"
    "HOL-Library.Word"
begin

section \<open>Data model of the Postgres store adapter\<close>

text \<open>
  Byte strings (\<open>Buffer\<close>, \<open>BYTEA\<close>) are lists of byte values, instants are milliseconds
  since the epoch, and the numbers of the TypeScript source that hold versions and type
  codes are integers. Values stored in \<open>JSONB\<close> columns are kept as the JavaScript value
  they encode.
\<close>

type_synonym bytes = "nat list"

type_synonym instant = int

datatype jsval =
    JNull
  | JNum int
  | JStr string
  | JBool bool
  | JBuf bytes
  | JDate instant
  | JArr "jsval list"
  | JObj "(string \<times> jsval) list"

type_synonym jsobj = "(string \<times> jsval) list"

text \<open>The tables of \<open>createTables\<close> (adapters/postgres/libs/schema.ts).\<close>

record aggregate_row =
  agg_version :: int
  agg_timestamp :: instant
  agg_final :: bool

record event_row =
  ev_id :: bytes
  ev_type :: int
  ev_aggregate_id :: bytes
  ev_aggregate_version :: int
  ev_body :: jsval
  ev_meta :: jsobj
  ev_timestamp :: instant
  ev_final :: bool

record snapshot_row =
  snap_aggregate_id :: bytes
  snap_aggregate_version :: int
  snap_state :: jsval
  snap_timestamp :: instant

record checkpoint_row =
  cp_projection :: string
  cp_aggregate_id :: bytes
  cp_aggregate_version :: int
  cp_timestamp :: instant

text \<open>
  \<open>aggregates\<close> has the single-column primary key \<open>id\<close> and is a map from that key to
  the rest of the row. The other tables are lists of rows in insertion order; their
  primary keys and unique indexes are checked by the \<open>INSERT\<close> statements below.
\<close>

record tables =
  aggregates :: "bytes \<rightharpoonup> aggregate_row"
  events :: "event_row list"
  snapshots :: "snapshot_row list"
  projection_checkpoints :: "checkpoint_row list"

definition empty_tables :: tables where
  "empty_tables =
     \<lparr>aggregates = Map.empty, events = [], snapshots = [], projection_checkpoints = []\<rparr>"

datatype error =
    AggregateIsFinalError bytes
  | AggregateVersionConflictError bytes int
  | AssertionError string
  | PgError string

section \<open>Projection checkpoints\<close>

text \<open>
  \<open>checkProjectionCheckpoint\<close>:
  \<^verbatim>\<open>SELECT 1 FROM projection_checkpoints
     WHERE projection = $1 AND aggregate_id = $2 AND aggregate_version >= $3 LIMIT 1\<close>
  and \<open>return res.rowCount === 0\<close>.
\<close>

definition checkProjectionCheckpoint :: "string \<Rightarrow> bytes \<Rightarrow> int \<Rightarrow> tables \<Rightarrow> bool" where
  "checkProjectionCheckpoint projection aid version db =
     (let res = take 1 (filter (\<lambda>r. cp_projection r = projection \<and> cp_aggregate_id r = aid
                                     \<and> cp_aggregate_version r \<ge> version)
                               (projection_checkpoints db))
      in length res = 0)"

text \<open>
  \<open>saveProjectionCheckpoint\<close>:
  \<^verbatim>\<open>INSERT INTO projection_checkpoints (...) VALUES ($1, $2, $3, NOW())
     ON CONFLICT (projection, aggregate_id)
     DO UPDATE SET aggregate_version = $3, timestamp = NOW()\<close>
  The clock value \<open>now\<close> is supplied by the caller of the model.
\<close>

definition saveProjectionCheckpoint :: "instant \<Rightarrow> string \<Rightarrow> bytes \<Rightarrow> int \<Rightarrow> tables \<Rightarrow> tables" where
  "saveProjectionCheckpoint now projection aid version db =
     (let rows = projection_checkpoints db;
          conflict = (\<lambda>r. cp_projection r = projection \<and> cp_aggregate_id r = aid)
      in if list_ex conflict rows
         then db\<lparr>projection_checkpoints :=
                   map (\<lambda>r. if conflict r
                             then r\<lparr>cp_aggregate_version := version, cp_timestamp := now\<rparr>
                             else r) rows\<rparr>
         else db\<lparr>projection_checkpoints :=
                   rows @ [\<lparr>cp_projection = projection, cp_aggregate_id = aid,
                            cp_aggregate_version = version, cp_timestamp = now\<rparr>]\<rparr>)"

section \<open>Snapshots\<close>

text \<open>
  \<open>saveSnapshot\<close> runs one plain
  \<^verbatim>\<open>INSERT INTO snapshots (aggregate_id, aggregate_version, state, timestamp)
     VALUES ($1, $2, $3, $4)\<close>
  through the single-slot queue; the table has
  \<open>PRIMARY KEY (aggregate_id, aggregate_version)\<close>, so a row with an existing key is
  refused with SQLSTATE 23505 (unique violation), which the method lets propagate.
\<close>

definition unique_violation :: string where
  "unique_violation = ''23505''"

definition saveSnapshot :: "snapshot_row \<Rightarrow> tables \<Rightarrow> error option \<times> tables" where
  "saveSnapshot params db =
     (if list_ex (\<lambda>r. snap_aggregate_id r = snap_aggregate_id params
                       \<and> snap_aggregate_version r = snap_aggregate_version params)
                 (snapshots db)
      then (Some (PgError unique_violation), db)
      else (None, db\<lparr>snapshots := snapshots db @ [params]\<rparr>))"

definition snapshot_rows_at :: "bytes \<Rightarrow> int \<Rightarrow> tables \<Rightarrow> snapshot_row list" where
  "snapshot_rows_at aid version db =
     filter (\<lambda>r. snap_aggregate_id r = aid \<and> snap_aggregate_version r = version) (snapshots db)"

section \<open>Core event type\<close>

text \<open>
  \<open>Event\<close> of the core: \<open>{id, type, aggregate: {id, version}, body, meta, timestamp}\<close>.
  The store adapter yields bodies and metadata as decoded values; the stream adapter's
  \<open>Event\<close> (adapters/kafka/libs/types.ts) has a body that is a \<open>Buffer\<close>, a record or
  \<open>null\<close>, so the body and metadata types are parameters. The wire codec has a record
  of its own for the stream adapter's \<open>Event\<close>, with the widths of the wire fields.
\<close>

record ('b, 'm) event =
  e_id :: bytes
  e_type :: int
  e_aggregate_id :: bytes
  e_aggregate_version :: int
  e_body :: 'b
  e_meta :: 'm
  e_timestamp :: instant

section \<open>The pg client: statements, transactions, injected database errors\<close>

text \<open>
  Every \<open>client.query\<close> of the adapter is a labelled statement. The database may refuse
  any statement with an SQLSTATE of its own (serialization failure, deadlock, lost
  connection, ...): the environment of one attempt is a function from statement labels
  to the code raised there, \<open>None\<close> meaning that the statement runs.
\<close>

datatype stmt =
    Connect
  | Begin
  | SelectFinal
  | InsertAggregate
  | UpdateAggregate
  | InsertEvent nat
  | Commit
  | SetAggregateFinal
  | SetEventsFinal

type_synonym faults = "stmt \<Rightarrow> string option"

definition no_faults :: faults where
  "no_faults = (\<lambda>_. None)"

text \<open>
  A pooled client holds the durable tables and, between \<open>BEGIN\<close> and
  \<open>COMMIT\<close>/\<open>ROLLBACK\<close>, the working copy of the open transaction. Statements read and
  write the working copy when there is one and the durable tables otherwise.
\<close>

record client =
  durable :: tables
  txn :: "tables option"

type_synonym 'a pg = "client \<Rightarrow> (error + 'a) \<times> client"

definition view :: "client \<Rightarrow> tables" where
  "view c = (case txn c of Some t \<Rightarrow> t | None \<Rightarrow> durable c)"

definition put_tables :: "tables \<Rightarrow> client \<Rightarrow> client" where
  "put_tables t c = (case txn c of Some _ \<Rightarrow> c\<lparr>txn := Some t\<rparr> | None \<Rightarrow> c\<lparr>durable := t\<rparr>)"

definition returnE :: "'a \<Rightarrow> 'a pg" where
  "returnE x c = (Inr x, c)"

definition throwE :: "error \<Rightarrow> 'a pg" where
  "throwE e c = (Inl e, c)"

definition bindE :: "'a pg \<Rightarrow> ('a \<Rightarrow> 'b pg) \<Rightarrow> 'b pg" where
  "bindE m k c = (case m c of (Inl e, c') \<Rightarrow> (Inl e, c') | (Inr x, c') \<Rightarrow> k x c')"

definition catchE :: "'a pg \<Rightarrow> (error \<Rightarrow> 'a pg) \<Rightarrow> 'a pg" where
  "catchE m h c = (case m c of (Inl e, c') \<Rightarrow> h e c' | (Inr x, c') \<Rightarrow> (Inr x, c'))"

definition query :: "faults \<Rightarrow> stmt \<Rightarrow> (tables \<Rightarrow> string + 'a \<times> tables) \<Rightarrow> 'a pg" where
  "query f l q c =
     (case f l of
        Some code \<Rightarrow> (Inl (PgError code), c)
      | None \<Rightarrow>
          (case q (view c) of
             Inl code \<Rightarrow> (Inl (PgError code), c)
           | Inr (x, t) \<Rightarrow> (Inr x, put_tables t c)))"

definition pg_begin :: "faults \<Rightarrow> unit pg" where
  "pg_begin f c =
     (case f Begin of
        Some code \<Rightarrow> (Inl (PgError code), c)
      | None \<Rightarrow> (Inr (), c\<lparr>txn := Some (view c)\<rparr>))"

definition pg_commit :: "faults \<Rightarrow> unit pg" where
  "pg_commit f c =
     (case f Commit of
        Some code \<Rightarrow> (Inl (PgError code), c)
      | None \<Rightarrow> (Inr (), \<lparr>durable = view c, txn = None\<rparr>))"

definition pg_rollback :: "client \<Rightarrow> client" where
  "pg_rollback c = c\<lparr>txn := None\<rparr>"

section \<open>The statements of saveEvents and finalizeAggregate\<close>

definition foreign_key_violation :: string where
  "foreign_key_violation = ''23503''"

text \<open>\<^verbatim>\<open>SELECT final FROM aggregates WHERE id = $1\<close>; the result is the list of rows.\<close>

definition select_final :: "bytes \<Rightarrow> tables \<Rightarrow> string + bool list \<times> tables" where
  "select_final aid t =
     Inr (case aggregates t aid of None \<Rightarrow> [] | Some r \<Rightarrow> [agg_final r], t)"

text \<open>
  \<^verbatim>\<open>INSERT INTO aggregates (id, version, timestamp) VALUES ($1, $2, $3)\<close>;
  \<open>final\<close> takes its default \<open>FALSE\<close>, and an existing primary key is a unique violation.
\<close>

definition insert_aggregate :: "bytes \<Rightarrow> int \<Rightarrow> instant \<Rightarrow> tables \<Rightarrow> string + unit \<times> tables" where
  "insert_aggregate aid version ts t =
     (if aggregates t aid \<noteq> None then Inl unique_violation
      else Inr ((), t\<lparr>aggregates := (aggregates t)
                   (aid \<mapsto> \<lparr>agg_version = version, agg_timestamp = ts, agg_final = False\<rparr>)\<rparr>))"

text \<open>
  \<^verbatim>\<open>UPDATE aggregates SET version = $1, timestamp = $2
     WHERE id = $3 AND version = $4 AND final IS NOT TRUE\<close>; the result is \<open>rowCount\<close>.
\<close>

definition update_aggregate :: "int \<Rightarrow> instant \<Rightarrow> bytes \<Rightarrow> int \<Rightarrow> tables \<Rightarrow> string + nat \<times> tables" where
  "update_aggregate new_version ts aid old_version t =
     (case aggregates t aid of
        None \<Rightarrow> Inr (0, t)
      | Some r \<Rightarrow>
          if agg_version r = old_version \<and> \<not> agg_final r
          then Inr (1, t\<lparr>aggregates := (aggregates t)
                         (aid \<mapsto> r\<lparr>agg_version := new_version, agg_timestamp := ts\<rparr>)\<rparr>)
          else Inr (0, t))"

text \<open>
  \<^verbatim>\<open>INSERT INTO events (id, type, aggregate_id, aggregate_version, body, meta, timestamp)
     VALUES ($1, ..., $7)\<close> under \<open>id BYTEA PRIMARY KEY\<close>, the unique index
  \<open>idx_events_aggregate_id_version\<close> and the foreign key \<open>fk_aggregate\<close>.
\<close>

definition insert_event :: "event_row \<Rightarrow> tables \<Rightarrow> string + unit \<times> tables" where
  "insert_event row t =
     (if list_ex (\<lambda>r. ev_id r = ev_id row) (events t) then Inl unique_violation
      else if list_ex (\<lambda>r. ev_aggregate_id r = ev_aggregate_id row
                          \<and> ev_aggregate_version r = ev_aggregate_version row) (events t)
      then Inl unique_violation
      else if aggregates t (ev_aggregate_id row) = None then Inl foreign_key_violation
      else Inr ((), t\<lparr>events := events t @ [row]\<rparr>))"

text \<open>\<^verbatim>\<open>UPDATE aggregates SET final = TRUE WHERE id = $1\<close>\<close>

definition set_aggregate_final :: "bytes \<Rightarrow> tables \<Rightarrow> string + unit \<times> tables" where
  "set_aggregate_final aid t =
     Inr ((), case aggregates t aid of
                None \<Rightarrow> t
              | Some r \<Rightarrow> t\<lparr>aggregates := (aggregates t)(aid \<mapsto> r\<lparr>agg_final := True\<rparr>)\<rparr>)"

text \<open>\<^verbatim>\<open>UPDATE events SET final = TRUE WHERE aggregate_id = $1\<close>\<close>

definition set_events_final :: "bytes \<Rightarrow> tables \<Rightarrow> string + unit \<times> tables" where
  "set_events_final aid t =
     Inr ((), t\<lparr>events := map (\<lambda>r. if ev_aggregate_id r = aid then r\<lparr>ev_final := True\<rparr> else r)
                               (events t)\<rparr>)"

section \<open>saveEvents\<close>

record new_event =
  ne_id :: bytes
  ne_type :: int
  ne_body :: jsval
  ne_meta :: jsobj

record save_params =
  sp_id :: bytes
  sp_version :: int
  sp_timestamp :: instant
  sp_events :: "new_event list"
  sp_meta :: "jsobj option"

text \<open>Object spread \<open>{ ...a, ...b }\<close>: the keys of \<open>a\<close>, overridden and extended by \<open>b\<close>.\<close>

fun assign :: "jsobj \<Rightarrow> string \<times> jsval \<Rightarrow> jsobj" where
  "assign [] kv = [kv]"
| "assign ((k', v') # rest) kv =
     (if k' = fst kv then (k', snd kv) # rest else (k', v') # assign rest kv)"

definition spread :: "jsobj \<Rightarrow> jsobj option \<Rightarrow> jsobj" where
  "spread a b = (case b of None \<Rightarrow> a | Some kvs \<Rightarrow> foldl assign a kvs)"

definition event_row_of :: "save_params \<Rightarrow> nat \<Rightarrow> new_event \<Rightarrow> event_row" where
  "event_row_of p index ev =
     \<lparr>ev_id = ne_id ev, ev_type = ne_type ev, ev_aggregate_id = sp_id p,
      ev_aggregate_version = sp_version p + int index, ev_body = ne_body ev,
      ev_meta = spread (ne_meta ev) (sp_meta p), ev_timestamp = sp_timestamp p,
      ev_final = False\<rparr>"

text \<open>The loop \<open>for (let index = 0; index < params.events.length; index++)\<close>.\<close>

fun insert_events :: "faults \<Rightarrow> save_params \<Rightarrow> nat \<Rightarrow> new_event list \<Rightarrow> unit pg" where
  "insert_events f p index [] = returnE ()"
| "insert_events f p index (ev # rest) =
     bindE (query f (InsertEvent index) (insert_event (event_row_of p index ev)))
           (\<lambda>_. insert_events f p (Suc index) rest)"

text \<open>The body of the \<open>try\<close> block, from \<open>BEGIN\<close> to \<open>COMMIT\<close>.\<close>

definition saveEvents_txn :: "faults \<Rightarrow> save_params \<Rightarrow> unit pg" where
  "saveEvents_txn f p =
     bindE (pg_begin f) (\<lambda>_.
     bindE (query f SelectFinal (select_final (sp_id p))) (\<lambda>aggRes.
       if (case aggRes of [] \<Rightarrow> False | final # _ \<Rightarrow> final)
       then throwE (AggregateIsFinalError (sp_id p))
       else
         bindE
           (if sp_version p = 1
            then catchE
                   (query f InsertAggregate
                      (insert_aggregate (sp_id p) (int (length (sp_events p))) (sp_timestamp p)))
                   (\<lambda>err. if err = PgError unique_violation
                           then throwE (AggregateVersionConflictError (sp_id p) (sp_version p))
                           else throwE err)
            else bindE
                   (query f UpdateAggregate
                      (update_aggregate (sp_version p + int (length (sp_events p)) - 1)
                         (sp_timestamp p) (sp_id p) (sp_version p - 1)))
                   (\<lambda>rowCount. if rowCount = 0
                                then throwE (AggregateVersionConflictError (sp_id p) (sp_version p))
                                else returnE ()))
           (\<lambda>_. bindE (insert_events f p 0 (sp_events p)) (\<lambda>_. pg_commit f))))"

text \<open>
  One run of the function handed to \<open>backOff\<close>: connect, run the \<open>try\<close> block, and on
  any error \<open>ROLLBACK\<close> and rethrow. The client is released in both cases; what remains
  is the durable state.
\<close>

definition saveEvents_attempt :: "faults \<Rightarrow> save_params \<Rightarrow> tables \<Rightarrow> error option \<times> tables" where
  "saveEvents_attempt f p db =
     (case f Connect of
        Some code \<Rightarrow> (Some (PgError code), db)
      | None \<Rightarrow>
          (case saveEvents_txn f p \<lparr>durable = db, txn = None\<rparr> of
             (Inr _, c) \<Rightarrow> (None, durable c)
           | (Inl e, c) \<Rightarrow> (Some e, durable (pg_rollback c))))"

section \<open>Retrying with exponential backoff\<close>

text \<open>
  The options of \<open>backOff\<close> that the adapter sets; the others keep the defaults of the
  package (\<open>timeMultiple = 2\<close>, \<open>delayFirstAttempt = false\<close>, no jitter). \<open>maxDelay = None\<close>
  is the package default \<open>Infinity\<close>.
\<close>

record backoff_options =
  startingDelay :: nat
  maxDelay :: "nat option"
  numOfAttempts :: nat

definition delay_of :: "backoff_options \<Rightarrow> nat \<Rightarrow> nat" where
  "delay_of opts attempt =
     (let d = startingDelay opts * 2 ^ (attempt - 1)
      in case maxDelay opts of None \<Rightarrow> d | Some m \<Rightarrow> min d m)"

text \<open>
  Modelled from the spec: the loop of the npm package \<open>exponential-backoff\<close>, which is
  not among the sources. It runs the request, and on an error increments the attempt
  number, asks \<open>retry\<close>, and rethrows when \<open>retry\<close> says no or the attempt limit is
  reached; before every attempt but the first it waits \<open>delay_of\<close> (\<open>waits_of\<close>). The result carries
  the waits in milliseconds, in order. The request receives the attempt number so that
  each attempt meets its own environment.
\<close>

definition waits_of :: "backoff_options \<Rightarrow> nat \<Rightarrow> nat list" where
  "waits_of opts attempt = (if attempt = 0 then [] else [delay_of opts attempt])"

function backOff_from ::
  "backoff_options \<Rightarrow> (error \<Rightarrow> bool) \<Rightarrow> (nat \<Rightarrow> 's \<Rightarrow> error option \<times> 's) \<Rightarrow> nat \<Rightarrow> 's
     \<Rightarrow> error option \<times> 's \<times> nat list" where
  "backOff_from opts retry request attempt s =
     (if attempt \<ge> numOfAttempts opts then (Some (AssertionError ''Something went wrong.''), s, [])
      else case request attempt s of
             (None, s') \<Rightarrow> (None, s', waits_of opts attempt)
           | (Some e, s') \<Rightarrow>
               if \<not> retry e \<or> Suc attempt \<ge> numOfAttempts opts
               then (Some e, s', waits_of opts attempt)
               else (case backOff_from opts retry request (Suc attempt) s' of
                       (r, s'', later) \<Rightarrow> (r, s'', waits_of opts attempt @ later)))"
  by pat_completeness auto
termination
  by (relation "measure (\<lambda>(opts, retry, request, attempt, s). numOfAttempts opts - attempt)") auto

definition backOff ::
  "backoff_options \<Rightarrow> (error \<Rightarrow> bool) \<Rightarrow> (nat \<Rightarrow> 's \<Rightarrow> error option \<times> 's) \<Rightarrow> 's
     \<Rightarrow> error option \<times> 's \<times> nat list" where
  "backOff opts retry request s =
     backOff_from (opts\<lparr>numOfAttempts := max 1 (numOfAttempts opts)\<rparr>) retry request 0 s"

text \<open>The retry options of the adapter and their defaults in the constructor.\<close>

record store_options =
  retryStartingDelay :: nat
  retryMaxDelay :: nat
  retryMaxAttempts :: nat

definition default_store_options :: store_options where
  "default_store_options =
     \<lparr>retryStartingDelay = 100, retryMaxDelay = 1600, retryMaxAttempts = 20\<rparr>"

text \<open>\<open>retry: (err) => ['40001', '40P01'].includes(err.code)\<close>\<close>

definition retryCodes :: "string list" where
  "retryCodes = [''40001'', ''40P01'']"

definition shouldRetry :: "error \<Rightarrow> bool" where
  "shouldRetry err = (case err of PgError code \<Rightarrow> code \<in> set retryCodes | _ \<Rightarrow> False)"

definition saveEvents ::
  "store_options \<Rightarrow> (nat \<Rightarrow> faults) \<Rightarrow> save_params \<Rightarrow> tables \<Rightarrow> error option \<times> tables \<times> nat list" where
  "saveEvents opts envs p db =
     (if \<not> sp_version p > 0
      then (Some (AssertionError ''aggregate version must be greater than 0''), db, [])
      else backOff \<lparr>startingDelay = retryStartingDelay opts,
                    maxDelay = Some (retryMaxDelay opts),
                    numOfAttempts = retryMaxAttempts opts\<rparr>
                   shouldRetry (\<lambda>attempt. saveEvents_attempt (envs attempt) p) db)"

section \<open>finalizeAggregate\<close>

definition finalizeAggregate_txn :: "faults \<Rightarrow> bytes \<Rightarrow> unit pg" where
  "finalizeAggregate_txn f aid =
     bindE (pg_begin f) (\<lambda>_.
     bindE (query f SetAggregateFinal (set_aggregate_final aid)) (\<lambda>_.
     bindE (query f SetEventsFinal (set_events_final aid)) (\<lambda>_.
     pg_commit f)))"

definition finalizeAggregate_attempt :: "faults \<Rightarrow> bytes \<Rightarrow> tables \<Rightarrow> error option \<times> tables" where
  "finalizeAggregate_attempt f aid db =
     (case f Connect of
        Some code \<Rightarrow> (Some (PgError code), db)
      | None \<Rightarrow>
          (case finalizeAggregate_txn f aid \<lparr>durable = db, txn = None\<rparr> of
             (Inr _, c) \<Rightarrow> (None, durable c)
           | (Inl e, c) \<Rightarrow> (Some e, durable (pg_rollback c))))"

text \<open>
  \<open>finalizeAggregate\<close> passes \<open>{ retry, ...this.opts }\<close>: the adapter's options are named
  \<open>retryStartingDelay\<close>, \<open>retryMaxDelay\<close> and \<open>retryMaxAttempts\<close>, so \<open>backOff\<close> runs with
  the package defaults (100 ms, no maximum, 10 attempts).
\<close>

definition library_default_options :: backoff_options where
  "library_default_options = \<lparr>startingDelay = 100, maxDelay = None, numOfAttempts = 10\<rparr>"

definition finalizeAggregate ::
  "(nat \<Rightarrow> faults) \<Rightarrow> bytes \<Rightarrow> tables \<Rightarrow> error option \<times> tables \<times> nat list" where
  "finalizeAggregate envs aid db =
     backOff library_default_options shouldRetry
             (\<lambda>attempt. finalizeAggregate_attempt (envs attempt) aid) db"

section \<open>listEvents\<close>

text \<open>
  The query is built from the optional parameters: \<open>aggregate_id = $n\<close> when
  \<open>params.aggregate\<close> is given, \<open>aggregate_version > $n\<close> when its \<open>version\<close> is truthy
  (present and not zero), \<open>type = $n\<close> when \<open>params.type\<close> is a number; then
  \<open>ORDER BY aggregate_id ASC, aggregate_version ASC\<close>. All rows are fetched and yielded
  in that order.
\<close>

definition matches :: "(bytes \<times> int option) option \<Rightarrow> int option \<Rightarrow> event_row \<Rightarrow> bool" where
  "matches aggregate type r =
     ((case aggregate of
         None \<Rightarrow> True
       | Some (aid, version) \<Rightarrow>
           ev_aggregate_id r = aid
           \<and> (case version of
                None \<Rightarrow> True
              | Some v \<Rightarrow> if v \<noteq> 0 then ev_aggregate_version r > v else True))
      \<and> (case type of None \<Rightarrow> True | Some ty \<Rightarrow> ev_type r = ty))"

definition event_of_row :: "event_row \<Rightarrow> (jsval, jsobj) event" where
  "event_of_row r =
     \<lparr>e_id = ev_id r, e_type = ev_type r, e_aggregate_id = ev_aggregate_id r,
      e_aggregate_version = ev_aggregate_version r, e_body = ev_body r, e_meta = ev_meta r,
      e_timestamp = ev_timestamp r\<rparr>"

definition listEvents ::
  "(bytes \<times> int option) option \<Rightarrow> int option \<Rightarrow> tables \<Rightarrow> (jsval, jsobj) event list" where
  "listEvents aggregate type db =
     map event_of_row
       (sort_key (\<lambda>r. (ev_aggregate_id r, ev_aggregate_version r))
          (filter (matches aggregate type) (events db)))"

section \<open>Histories of store calls\<close>

datatype store_call =
    SaveEvents save_params "nat \<Rightarrow> faults"
  | FinalizeAggregate bytes "nat \<Rightarrow> faults"

fun run_call :: "store_options \<Rightarrow> store_call \<Rightarrow> tables \<Rightarrow> error option \<times> tables" where
  "run_call opts (SaveEvents p envs) db =
     (case saveEvents opts envs p db of (r, db', _) \<Rightarrow> (r, db'))"
| "run_call opts (FinalizeAggregate aid envs) db =
     (case finalizeAggregate envs aid db of (r, db', _) \<Rightarrow> (r, db'))"

text \<open>
  The store after a history of calls, each made by a caller that may or may not have
  succeeded; a failed call contributes whatever state it left behind.
\<close>

fun run_calls :: "store_options \<Rightarrow> store_call list \<Rightarrow> tables \<Rightarrow> tables" where
  "run_calls opts [] db = db"
| "run_calls opts (c # cs) db = run_calls opts cs (snd (run_call opts c db))"

section \<open>Vocabulary for the properties of the store\<close>

text \<open>The rows that a batch inserts: event \<open>index\<close> of the batch gets version \<open>version + index\<close>.\<close>

definition rows_from :: "save_params \<Rightarrow> nat \<Rightarrow> new_event list \<Rightarrow> event_row list" where
  "rows_from p index evs = map (\<lambda>(i, ev). event_row_of p i ev) (enumerate index evs)"

text \<open>
  The branch of \<open>saveEvents\<close> on \<open>params.aggregate.version === 1\<close>, as a step of its own:
  it is the middle of \<open>saveEvents_txn\<close>, named so that it can be reasoned about alone.
\<close>

definition aggregate_step :: "faults \<Rightarrow> save_params \<Rightarrow> unit pg" where
  "aggregate_step f p =
     (if sp_version p = 1
            then catchE
                   (query f InsertAggregate
                      (insert_aggregate (sp_id p) (int (length (sp_events p))) (sp_timestamp p)))
                   (\<lambda>err. if err = PgError unique_violation
                           then throwE (AggregateVersionConflictError (sp_id p) (sp_version p))
                           else throwE err)
            else bindE
                   (query f UpdateAggregate
                      (update_aggregate (sp_version p + int (length (sp_events p)) - 1)
                         (sp_timestamp p) (sp_id p) (sp_version p - 1)))
                   (\<lambda>rowCount. if rowCount = 0
                                then throwE (AggregateVersionConflictError (sp_id p) (sp_version p))
                                else returnE ()))"

text \<open>The aggregate record after a batch, and the condition under which the batch is accepted.\<close>

definition new_head :: "save_params \<Rightarrow> aggregate_row" where
  "new_head p = \<lparr>agg_version = sp_version p + int (length (sp_events p)) - 1,
                 agg_timestamp = sp_timestamp p, agg_final = False\<rparr>"

definition head_matches :: "save_params \<Rightarrow> tables \<Rightarrow> bool" where
  "head_matches p t =
     (if sp_version p = 1 then aggregates t (sp_id p) = None
      else (case aggregates t (sp_id p) of
              None \<Rightarrow> False
            | Some r \<Rightarrow> agg_version r = sp_version p - 1 \<and> \<not> agg_final r))"

text \<open>
  The versions of the stored events of one aggregate in insertion order, the version in
  its aggregate record (0 when there is none), the last version of its log (0 when the
  log is empty), and whether its record is marked final.
\<close>

definition versions_of :: "bytes \<Rightarrow> tables \<Rightarrow> int list" where
  "versions_of aid db =
     map ev_aggregate_version (filter (\<lambda>r. ev_aggregate_id r = aid) (events db))"

definition head_version :: "bytes \<Rightarrow> tables \<Rightarrow> int" where
  "head_version aid db = (case aggregates db aid of None \<Rightarrow> 0 | Some r \<Rightarrow> agg_version r)"

definition log_end :: "bytes \<Rightarrow> tables \<Rightarrow> int" where
  "log_end aid db = fold max (versions_of aid db) 0"

definition is_final :: "bytes \<Rightarrow> tables \<Rightarrow> bool" where
  "is_final aid db = (case aggregates db aid of None \<Rightarrow> False | Some r \<Rightarrow> agg_final r)"

text \<open>
  The invariant of the event log: every aggregate's events were inserted as versions
  \<open>1, 2, ..., n\<close>, where \<open>n\<close> is the version of its aggregate record.
\<close>

definition log_ok :: "tables \<Rightarrow> bool" where
  "log_ok db = (\<forall>aid. 0 \<le> head_version aid db \<and> versions_of aid db = [1..head_version aid db])"

text \<open>Concrete inputs for the worked instances below.\<close>

definition ev_a :: new_event where
  "ev_a = \<lparr>ne_id = [9], ne_type = 257, ne_body = JNull, ne_meta = []\<rparr>"

definition ev_b :: new_event where
  "ev_b = \<lparr>ne_id = [10], ne_type = 258, ne_body = JNull, ne_meta = []\<rparr>"

definition batch :: "int \<Rightarrow> new_event list \<Rightarrow> save_params" where
  "batch v evs =
     \<lparr>sp_id = [1], sp_version = v, sp_timestamp = 5, sp_events = evs, sp_meta = None\<rparr>"

definition commit_fails :: "string \<Rightarrow> faults" where
  "commit_fails code = (\<lambda>l. if l = Commit then Some code else None)"

definition flaky :: "nat \<Rightarrow> faults" where
  "flaky attempt = (if attempt < 2 then commit_fails ''40001'' else no_faults)"

definition history_one :: "store_call list" where
  "history_one = [SaveEvents (batch 1 [ev_a]) (\<lambda>_. no_faults)]"

definition history_two :: "store_call list" where
  "history_two = [SaveEvents (batch 1 [ev_a]) (\<lambda>_. no_faults),
                  SaveEvents (batch 2 [ev_b]) (\<lambda>_. no_faults)]"

definition history_final :: "store_call list" where
  "history_final = [SaveEvents (batch 1 [ev_a]) (\<lambda>_. no_faults),
                    FinalizeAggregate [1] (\<lambda>_. no_faults)]"

section \<open>Snapshots: concrete inputs\<close>

definition snap_first :: snapshot_row where
  "snap_first = \<lparr>snap_aggregate_id = [1], snap_aggregate_version = 10,
                  snap_state = JNum 100, snap_timestamp = 5\<rparr>"

definition snap_second :: snapshot_row where
  "snap_second = \<lparr>snap_aggregate_id = [1], snap_aggregate_version = 10,
                   snap_state = JNum 200, snap_timestamp = 6\<rparr>"

section \<open>Config adapters\<close>

text \<open>
  Modelled from the spec: the cache of the npm package \<open>lru-cache\<close>, which is not among
  the sources; the spec calls it a bounded LRU with \<open>cacheMax\<close> and \<open>cacheTTL\<close>. Entries are
  kept most recently used first, each with the time it was set. \<open>get\<close> drops an entry
  whose age exceeds a positive \<open>ttl\<close> and reports a miss, and otherwise moves the entry
  to the front; \<open>set\<close> replaces the entry of the key, puts it in front and evicts from
  the back beyond a positive \<open>max\<close>; with \<open>max: 0\<close> the number of entries is not bounded.
\<close>

record 'v cache_entry =
  ce_key :: int
  ce_value :: 'v
  ce_start :: instant

record 'v lru =
  lru_max :: nat
  lru_ttl :: int
  lru_entries :: "'v cache_entry list"

definition is_stale :: "'v lru \<Rightarrow> instant \<Rightarrow> 'v cache_entry \<Rightarrow> bool" where
  "is_stale c now e = (lru_ttl c > 0 \<and> now - ce_start e > lru_ttl c)"

definition lru_get :: "instant \<Rightarrow> int \<Rightarrow> 'v lru \<Rightarrow> 'v option \<times> 'v lru" where
  "lru_get now k c =
     (case find (\<lambda>e. ce_key e = k) (lru_entries c) of
        None \<Rightarrow> (None, c)
      | Some e \<Rightarrow>
          let others = filter (\<lambda>e'. ce_key e' \<noteq> k) (lru_entries c)
          in if is_stale c now e then (None, c\<lparr>lru_entries := others\<rparr>)
             else (Some (ce_value e), c\<lparr>lru_entries := e # others\<rparr>))"

definition lru_set :: "instant \<Rightarrow> int \<Rightarrow> 'v \<Rightarrow> 'v lru \<Rightarrow> 'v lru" where
  "lru_set now k v c =
     (let entries = \<lparr>ce_key = k, ce_value = v, ce_start = now\<rparr>
                      # filter (\<lambda>e'. ce_key e' \<noteq> k) (lru_entries c)
      in c\<lparr>lru_entries := (if lru_max c = 0 then entries else take (lru_max c) entries)\<rparr>)"

text \<open>The \<open>streams\<close> table (Postgres) or collection (Mongo), and an adapter instance.\<close>

record stream_row =
  st_id :: string
  st_events :: "int list"
  st_timestamp :: instant

record config_adapter =
  streams :: "stream_row list"
  cache :: "string list lru"

text \<open>The constructor defaults: \<open>cacheMax: 2500\<close>, \<open>cacheTTL: 1000 * 60 * 60\<close>.\<close>

definition new_config_adapter :: "stream_row list \<Rightarrow> config_adapter" where
  "new_config_adapter rows =
     \<lparr>streams = rows,
      cache = \<lparr>lru_max = 2500, lru_ttl = 1000 * 60 * 60, lru_entries = []\<rparr>\<rparr>"

text \<open>
  \<open>saveStream\<close>: \<open>INSERT ... ON CONFLICT (id) DO UPDATE SET events = $2, timestamp = NOW()\<close>
  (Postgres), \<open>updateOne({_id}, {$set: {events, timestamp}}, {upsert: true})\<close> (Mongo).
  Neither touches the cache.
\<close>

definition saveStream :: "instant \<Rightarrow> string \<Rightarrow> int list \<Rightarrow> config_adapter \<Rightarrow> config_adapter" where
  "saveStream now sid evs a =
     (if list_ex (\<lambda>r. st_id r = sid) (streams a)
      then a\<lparr>streams := map (\<lambda>r. if st_id r = sid
                                  then r\<lparr>st_events := evs, st_timestamp := now\<rparr>
                                  else r) (streams a)\<rparr>
      else a\<lparr>streams := streams a @ [\<lparr>st_id = sid, st_events = evs, st_timestamp = now\<rparr>]\<rparr>)"

text \<open>
  JavaScript truthiness of the value tested by \<open>if (streams)\<close> and \<open>if (!docs)\<close>: \<open>undefined\<close>
  is falsy, every array is truthy, the empty array included.
\<close>

fun truthy :: "'a list option \<Rightarrow> bool" where
  "truthy None = False"
| "truthy (Some xs) = True"

text \<open>\<^verbatim>\<open>SELECT id FROM streams WHERE $1 = ANY(events)\<close>, \<open>StreamModel.find({ events: event })\<close>\<close>

definition select_streams :: "int \<Rightarrow> stream_row list \<Rightarrow> string list" where
  "select_streams event rows = map st_id (filter (\<lambda>r. event \<in> set (st_events r)) rows)"

text \<open>\<open>PostgresConfigAdapter.findStreams\<close>\<close>

definition findStreams :: "instant \<Rightarrow> int \<Rightarrow> config_adapter \<Rightarrow> string list \<times> config_adapter" where
  "findStreams now event a =
     (case lru_get now event (cache a) of (hit, c) \<Rightarrow>
        if truthy hit then (the hit, a\<lparr>cache := c\<rparr>)
        else let found = select_streams event (streams a)
             in (found, a\<lparr>cache := lru_set now event found c\<rparr>))"

text \<open>
  \<open>MongoConfigAdapter.findStreams\<close>: the same, with the guard \<open>if (!docs) return []\<close>
  between the query and \<open>cache.set\<close>; \<open>find\<close> resolves to an array.
\<close>

definition mongo_findStreams :: "instant \<Rightarrow> int \<Rightarrow> config_adapter \<Rightarrow> string list \<times> config_adapter" where
  "mongo_findStreams now event a =
     (case lru_get now event (cache a) of (hit, c) \<Rightarrow>
        if truthy hit then (the hit, a\<lparr>cache := c\<rparr>)
        else let docs = Some (filter (\<lambda>r. event \<in> set (st_events r)) (streams a))
             in if \<not> truthy docs then ([], a\<lparr>cache := c\<rparr>)
                else let found = map st_id (the docs)
                     in (found, a\<lparr>cache := lru_set now event found c\<rparr>))"








section \<open>Broker\<close>

text \<open>
  A call of \<open>StreamAdapter.sendEvents(params, opts)\<close>: the batches \<open>{stream, events}\<close> and
  whether \<open>opts.raw\<close> is set. A call of \<open>StreamAdapter.subscribe(stream, handle, opts)\<close>:
  the stream and whether \<open>opts.raw\<close> is set.
\<close>

record 'ev send_call =
  sc_batches :: "(string \<times> 'ev list) list"
  sc_raw :: bool

record subscription =
  sub_stream :: string
  sub_raw :: bool

text \<open>\<open>Broker.start\<close> subscribes to \<open>'main'\<close> with \<open>{ raw: true }\<close>.\<close>

definition broker_subscription :: subscription where
  "broker_subscription = \<lparr>sub_stream = ''main'', sub_raw = True\<rparr>"

text \<open>
  The handler passed to \<open>subscribe\<close>. The config adapter is any implementation of
  \<open>findStreams\<close>, threaded as state; the result lists the \<open>sendEvents\<close> calls made.
\<close>

definition broker_handle ::
  "(int \<Rightarrow> 'c \<Rightarrow> string list \<times> 'c) \<Rightarrow> ('b, 'm) event \<Rightarrow> 'c
     \<Rightarrow> ('b, 'm) event send_call list \<times> 'c" where
  "broker_handle config_findStreams ev c =
     (case config_findStreams (e_type ev) c of (found, c') \<Rightarrow>
        if length found = 0 then ([], c')
        else ([\<lparr>sc_batches = map (\<lambda>stream. (stream, [ev])) found, sc_raw = True\<rparr>], c'))"

section \<open>Projection\<close>

text \<open>
  A \<open>ProjectionEventHandler\<close>: its \<open>type\<close> and its \<open>handle\<close>, which receives the
  projection's state object and the event, may change the state, and may throw.
\<close>

record ('s, 'ev, 'e) handler =
  h_type :: int
  h_handle :: "'s \<Rightarrow> 'ev \<Rightarrow> 'e option \<times> 's"

datatype 'e js_error = Error string | Thrown 'e

text \<open>
  \<open>new Map(eventHandlers.map((item) => [item.type, item]))\<close>: a later entry with the
  same key replaces the value and keeps the position of the first.
\<close>

fun map_set :: "(int \<times> 'h) list \<Rightarrow> int \<times> 'h \<Rightarrow> (int \<times> 'h) list" where
  "map_set [] kv = [kv]"
| "map_set ((k', v') # rest) kv =
     (if k' = fst kv then (k', snd kv) # rest else (k', v') # map_set rest kv)"

definition new_Map :: "(int \<times> 'h) list \<Rightarrow> (int \<times> 'h) list" where
  "new_Map pairs = foldl map_set [] pairs"

text \<open>\<open>[...new Set(xs).values()]\<close>: the distinct values in order of first occurrence.\<close>

fun set_values :: "int list \<Rightarrow> int list" where
  "set_values [] = []"
| "set_values (x # xs) = x # filter (\<lambda>y. y \<noteq> x) (set_values xs)"

record ('s, 'ev, 'e) projection =
  p_id :: string
  p_state :: 's
  p_eventHandlers :: "(int \<times> ('s, 'ev, 'e) handler) list"
  p_subscriber :: "subscription option"
  p_timestampLastEventReceived :: instant
  p_disableSaveStream :: bool

definition new_Projection ::
  "instant \<Rightarrow> ('s, 'ev, 'e) handler list \<Rightarrow> string \<Rightarrow> 's \<Rightarrow> bool \<Rightarrow> ('s, 'ev, 'e) projection" where
  "new_Projection now eventHandlers pid state disableSaveStream =
     \<lparr>p_id = pid, p_state = state,
      p_eventHandlers = new_Map (map (\<lambda>item. (h_type item, item)) eventHandlers),
      p_subscriber = None, p_timestampLastEventReceived = now,
      p_disableSaveStream = disableSaveStream\<rparr>"

text \<open>The calls that \<open>handleEvent\<close> makes on the handler and on the store, in order.\<close>

datatype projection_call =
    CheckProjectionCheckpoint string bytes int
  | Handle int
  | SaveProjectionCheckpoint string bytes int

record ('s, 'ev, 'e) handled =
  hd_thrown :: "'e option"
  hd_calls :: "projection_call list"
  hd_store :: tables
  hd_projection :: "('s, 'ev, 'e) projection"

definition handleEvent ::
  "instant \<Rightarrow> ('b, 'm) event \<Rightarrow> ('s, ('b, 'm) event, 'e) projection \<Rightarrow> tables
     \<Rightarrow> ('s, ('b, 'm) event, 'e) handled" where
  "handleEvent now ev proj db =
     (let proj1 = proj\<lparr>p_timestampLastEventReceived := now\<rparr>;
          pid = p_id proj; aid = e_aggregate_id ev; version = e_aggregate_version ev
      in case map_of (p_eventHandlers proj) (e_type ev) of
           None \<Rightarrow> \<lparr>hd_thrown = None, hd_calls = [], hd_store = db, hd_projection = proj1\<rparr>
         | Some handler \<Rightarrow>
             let shouldProcess = checkProjectionCheckpoint pid aid version db;
                 checked = [CheckProjectionCheckpoint pid aid version]
             in if shouldProcess
                then (case h_handle handler (p_state proj1) ev of
                        (Some err, state') \<Rightarrow>
                          \<lparr>hd_thrown = Some err, hd_calls = checked @ [Handle (e_type ev)],
                           hd_store = db, hd_projection = proj1\<lparr>p_state := state'\<rparr>\<rparr>
                      | (None, state') \<Rightarrow>
                          \<lparr>hd_thrown = None,
                           hd_calls = checked @ [Handle (e_type ev),
                                                 SaveProjectionCheckpoint pid aid version],
                           hd_store = saveProjectionCheckpoint now pid aid version db,
                           hd_projection = proj1\<lparr>p_state := state'\<rparr>\<rparr>)
                else \<lparr>hd_thrown = None, hd_calls = checked, hd_store = db,
                      hd_projection = proj1\<rparr>)"

text \<open>
  \<open>Projection.start\<close>. The environment says whether \<open>config.saveStream\<close> and
  \<open>stream.subscribe\<close> reject, and with what; the result lists the calls made on the two
  adapters.
\<close>

record 'e start_env =
  env_saveStream :: "'e option"
  env_subscribe :: "'e option"

datatype start_call =
    SaveStream string "int list"
  | Subscribe subscription

definition start ::
  "'e start_env \<Rightarrow> ('s, 'ev, 'e) projection
     \<Rightarrow> 'e js_error option \<times> start_call list \<times> ('s, 'ev, 'e) projection" where
  "start env proj =
     (if p_subscriber proj \<noteq> None then (Some (Error ''already started''), [], proj)
      else
        let eventTypes = set_values (map (\<lambda>item. h_type item) (map snd (p_eventHandlers proj)));
            saved = (if \<not> p_disableSaveStream proj then [SaveStream (p_id proj) eventTypes] else []);
            sub = \<lparr>sub_stream = p_id proj, sub_raw = False\<rparr>
        in if \<not> p_disableSaveStream proj \<and> env_saveStream env \<noteq> None
           then (map_option Thrown (env_saveStream env), saved, proj)
           else (case env_subscribe env of
                   Some err \<Rightarrow> (Some (Thrown err), saved @ [Subscribe sub], proj)
                 | None \<Rightarrow> (None, saved @ [Subscribe sub], proj\<lparr>p_subscriber := Some sub\<rparr>)))"

text \<open>Concrete handlers and events for the worked instances.\<close>

definition ok_handler :: "(int, (jsval, jsobj) event, string) handler" where
  "ok_handler = \<lparr>h_type = 257, h_handle = (\<lambda>state ev. (None, state + 1))\<rparr>"

definition bad_handler :: "(int, (jsval, jsobj) event, string) handler" where
  "bad_handler = \<lparr>h_type = 258, h_handle = (\<lambda>state ev. (Some ''boom'', state))\<rparr>"

definition demo_projection :: "(int, (jsval, jsobj) event, string) projection" where
  "demo_projection = new_Projection 0 [ok_handler, bad_handler] ''accounts'' 0 False"

definition demo_event :: "int \<Rightarrow> int \<Rightarrow> (jsval, jsobj) event" where
  "demo_event ty version =
     \<lparr>e_id = [7], e_type = ty, e_aggregate_id = [1], e_aggregate_version = version,
      e_body = JNull, e_meta = [], e_timestamp = 0\<rparr>"

definition quiet_env :: "string start_env" where
  "quiet_env = \<lparr>env_saveStream = None, env_subscribe = None\<rparr>"

section \<open>Wire codec of the Kafka stream adapter\<close>


subsection \<open>JSON texts\<close>


definition dquote :: char where
  "dquote = CHR 0x22"

definition backslash :: char where
  "backslash = CHR 0x5C"


definition is_digit :: "char \<Rightarrow> bool" where
  "is_digit c = (48 \<le> (of_char c :: nat) \<and> (of_char c :: nat) \<le> 57)"




text \<open>
  Characters inside a string: the quotation mark and the backslash are written with a
  backslash in front, the control characters below U+0020 as \<open>\b\<close>, \<open>\f\<close>, \<open>\n\<close>, \<open>\r\<close>,
  \<open>\t\<close> or \<open>\u00XX\<close> with lower-case hexadecimal digits.
\<close>

definition hex_digit :: "nat \<Rightarrow> char" where
  "hex_digit d = (if d < 10 then char_of (48 + d) else char_of (87 + d))"

definition hex_value :: "char \<Rightarrow> nat option" where
  "hex_value c =
     (let n = of_char c :: nat
      in if 48 \<le> n \<and> n \<le> 57 then Some (n - 48)
         else if 97 \<le> n \<and> n \<le> 102 then Some (n - 87)
         else if 65 \<le> n \<and> n \<le> 70 then Some (n - 55)
         else None)"

definition hex4 :: "char \<Rightarrow> char \<Rightarrow> char \<Rightarrow> char \<Rightarrow> nat option" where
  "hex4 a b c d =
     (case (hex_value a, hex_value b, hex_value c, hex_value d) of
        (Some w, Some x, Some y, Some z) \<Rightarrow> Some (((w * 16 + x) * 16 + y) * 16 + z)
      | _ \<Rightarrow> None)"

definition escape_char :: "char \<Rightarrow> string" where
  "escape_char c =
     (if c = dquote \<or> c = backslash then [backslash, c]
      else if c = CHR 0x08 then [backslash, CHR ''b'']
      else if c = CHR 0x0C then [backslash, CHR ''f'']
      else if c = CHR 0x0A then [backslash, CHR ''n'']
      else if c = CHR 0x0D then [backslash, CHR ''r'']
      else if c = CHR 0x09 then [backslash, CHR ''t'']
      else if (of_char c :: nat) < 32 then
        [backslash, CHR ''u'', CHR ''0'', CHR ''0'',
         hex_digit (of_char c div 16), hex_digit (of_char c mod 16)]
      else [c])"

definition show_string :: "string \<Rightarrow> string" where
  "show_string s = dquote # concat (map escape_char s) @ [dquote]"



text \<open>
  The characters of a string up to its closing quotation mark. A control character
  that is not escaped is an error, and so is, in this model, an escape \<open>\uXXXX\<close> beyond
  the 8-bit characters.
\<close>

fun parse_string :: "string \<Rightarrow> (string \<times> string) option" where
  "parse_string [] = None"
| "parse_string (c # r) =
     (if c = dquote then Some ([], r)
      else if c = backslash then
        (case r of
           [] \<Rightarrow> None
         | d # r' \<Rightarrow>
             if d = dquote \<or> d = backslash \<or> d = CHR ''/'' then
               map_option (apfst (Cons d)) (parse_string r')
             else if d = CHR ''b'' then map_option (apfst (Cons (CHR 0x08))) (parse_string r')
             else if d = CHR ''f'' then map_option (apfst (Cons (CHR 0x0C))) (parse_string r')
             else if d = CHR ''n'' then map_option (apfst (Cons (CHR 0x0A))) (parse_string r')
             else if d = CHR ''r'' then map_option (apfst (Cons (CHR 0x0D))) (parse_string r')
             else if d = CHR ''t'' then map_option (apfst (Cons (CHR 0x09))) (parse_string r')
             else if d = CHR ''u'' then
               (case r' of
                  h1 # h2 # h3 # h4 # r'' \<Rightarrow>
                    (case hex4 h1 h2 h3 h4 of
                       None \<Rightarrow> None
                     | Some n \<Rightarrow>
                         if n < 256 then map_option (apfst (Cons (char_of n))) (parse_string r'')
                         else None)
                | _ \<Rightarrow> None)
             else None)
      else if (of_char c :: nat) < 32 then None
      else map_option (apfst (Cons c)) (parse_string r))"


text \<open>White space, which \<open>JSON.parse\<close> passes over between the tokens of a text.\<close>

definition is_ws :: "char \<Rightarrow> bool" where
  "is_ws c = (c = CHR 0x20 \<or> c = CHR 0x09 \<or> c = CHR 0x0A \<or> c = CHR 0x0D)"

definition skip_ws :: "string \<Rightarrow> string" where
  "skip_ws s = dropWhile is_ws s"





definition follows :: "string \<Rightarrow> bool" where
  "follows rest = (rest = [] \<or> hd rest = CHR '','' \<or> hd rest = CHR '']'' \<or> hd rest = CHR ''}'')"

subsection \<open>The serializer table\<close>












subsection \<open>serialize and deserialize\<close>














definition demo_config :: config_adapter where
  "demo_config = saveStream 2 ''B'' [2, 3] (saveStream 1 ''A'' [1, 2] (new_config_adapter []))"

text \<open>Which calls of \<open>handleEvent\<close> are handler invocations and checkpoint saves.\<close>

fun is_save :: "projection_call \<Rightarrow> bool" where
  "is_save (SaveProjectionCheckpoint _ _ _) = True"
| "is_save _ = False"

fun is_handle :: "projection_call \<Rightarrow> bool" where
  "is_handle (Handle _) = True"
| "is_handle _ = False"

section \<open>Transactions: what one attempt does to the durable tables\<close>

lemma bindE_Inr:
  "bindE m k c = (Inr y, c') \<Longrightarrow> \<exists>x c1. m c = (Inr x, c1) \<and> k x c1 = (Inr y, c')"
  by (auto simp: bindE_def split: prod.splits sum.splits)

lemma bindE_Inl:
  "bindE m k c = (Inl e, c') \<Longrightarrow>
     m c = (Inl e, c') \<or> (\<exists>x c1. m c = (Inr x, c1) \<and> k x c1 = (Inl e, c'))"
  by (auto simp: bindE_def split: prod.splits sum.splits)

lemma query_Inr:
  "query f l q c = (Inr x, c') \<Longrightarrow> f l = None \<and> (\<exists>t. q (view c) = Inr (x, t) \<and> c' = put_tables t c)"
  by (auto simp: query_def split: option.splits sum.splits)

lemma query_Inl:
  "query f l q c = (Inl e, c') \<Longrightarrow> c' = c \<and> (\<exists>code. e = PgError code)"
  by (auto simp: query_def split: option.splits sum.splits)

lemma insert_events_Inr:
  "insert_events f p i evs c = (Inr u, c') \<Longrightarrow> txn c = Some t \<Longrightarrow>
     c' = c\<lparr>txn := Some (t\<lparr>events := events t @ rows_from p i evs\<rparr>)\<rparr>"
proof (induction evs arbitrary: i c t)
  case Nil
  then show ?case by (simp add: returnE_def rows_from_def)
next
  case (Cons ev rest)
  from Cons.prems(1) obtain x c1 where
    q: "query f (InsertEvent i) (insert_event (event_row_of p i ev)) c = (Inr x, c1)"
    and r: "insert_events f p (Suc i) rest c1 = (Inr u, c')"
    by (auto dest: bindE_Inr)
  from q Cons.prems(2) have c1: "c1 = c\<lparr>txn := Some (t\<lparr>events := events t @ [event_row_of p i ev]\<rparr>)\<rparr>"
    by (auto dest!: query_Inr simp: insert_event_def view_def put_tables_def split: if_splits)
  then have "txn c1 = Some (t\<lparr>events := events t @ [event_row_of p i ev]\<rparr>)" by simp
  from Cons.IH [OF r this] c1 show ?case
    by (simp add: rows_from_def)
qed

lemma insert_events_Inl:
  "insert_events f p i evs c = (Inl e, c') \<Longrightarrow> txn c \<noteq> None \<Longrightarrow>
     durable c' = durable c"
proof (induction evs arbitrary: i c)
  case Nil
  then show ?case by (simp add: returnE_def)
next
  case (Cons ev rest)
  from Cons.prems(1) consider
    (a) "query f (InsertEvent i) (insert_event (event_row_of p i ev)) c = (Inl e, c')"
    | (b) x c1 where "query f (InsertEvent i) (insert_event (event_row_of p i ev)) c = (Inr x, c1)"
        "insert_events f p (Suc i) rest c1 = (Inl e, c')"
    by (auto dest: bindE_Inl)
  then show ?case
  proof cases
    case a
    then show ?thesis by (auto dest: query_Inl)
  next
    case b
    from b(1) Cons.prems(2) have "txn c1 \<noteq> None" "durable c1 = durable c"
      by (auto dest!: query_Inr simp: put_tables_def split: option.splits)
    with Cons.IH [OF b(2)] show ?thesis by simp
  qed
qed

lemma pg_begin_Inr: "pg_begin f c = (Inr u, c') \<Longrightarrow> c' = c\<lparr>txn := Some (view c)\<rparr>"
  by (auto simp: pg_begin_def split: option.splits)

lemma pg_begin_Inl: "pg_begin f c = (Inl e, c') \<Longrightarrow> c' = c"
  by (auto simp: pg_begin_def split: option.splits)

lemma pg_commit_Inr: "pg_commit f c = (Inr u, c') \<Longrightarrow> c' = \<lparr>durable = view c, txn = None\<rparr>"
  by (auto simp: pg_commit_def split: option.splits)

lemma pg_commit_Inl: "pg_commit f c = (Inl e, c') \<Longrightarrow> c' = c"
  by (auto simp: pg_commit_def split: option.splits)

lemma query_in_txn:
  "query f l q c = (r, c') \<Longrightarrow> txn c \<noteq> None \<Longrightarrow> durable c' = durable c \<and> txn c' \<noteq> None"
  by (auto simp: query_def put_tables_def split: option.splits sum.splits)

lemma aggregate_step_in_txn:
  "aggregate_step f p c = (r, c') \<Longrightarrow> txn c \<noteq> None \<Longrightarrow> durable c' = durable c \<and> txn c' \<noteq> None"
  unfolding aggregate_step_def
  by (auto simp: catchE_def bindE_def throwE_def returnE_def
           split: if_splits prod.splits sum.splits dest: query_in_txn)

lemma unfinal_row_update:
  "\<not> agg_final r \<Longrightarrow>
     r\<lparr>agg_version := v, agg_timestamp := ts\<rparr>
       = \<lparr>agg_version = v, agg_timestamp = ts, agg_final = False\<rparr>"
  by (cases r) simp

lemma aggregate_step_Inr:
  assumes "aggregate_step f p c = (Inr u, c')" and "txn c = Some t"
  shows "head_matches p t \<and>
         c' = c\<lparr>txn := Some (t\<lparr>aggregates := (aggregates t)(sp_id p \<mapsto> new_head p)\<rparr>)\<rparr>"
proof (cases "sp_version p = 1")
  case True
  with assms(1) have
    "query f InsertAggregate
       (insert_aggregate (sp_id p) (int (length (sp_events p))) (sp_timestamp p)) c = (Inr u, c')"
    by (auto simp: aggregate_step_def catchE_def throwE_def split: prod.splits sum.splits if_splits)
  with assms(2) True show ?thesis
    by (auto dest!: query_Inr
             simp: insert_aggregate_def view_def put_tables_def head_matches_def new_head_def
             split: if_splits)
next
  case False
  with assms(1) obtain n c1 where
    q: "query f UpdateAggregate
          (update_aggregate (sp_version p + int (length (sp_events p)) - 1)
             (sp_timestamp p) (sp_id p) (sp_version p - 1)) c = (Inr n, c1)"
    and n: "n \<noteq> 0" and c1: "c1 = c'"
    by (auto simp: aggregate_step_def throwE_def returnE_def dest!: bindE_Inr split: if_splits)
  from q n c1 assms(2) False show ?thesis
    by (auto dest!: query_Inr
             simp: update_aggregate_def view_def put_tables_def head_matches_def new_head_def
                   unfinal_row_update
             split: if_splits option.splits)
qed

lemma saveEvents_txn_alt:
  "saveEvents_txn f p =
     bindE (pg_begin f) (\<lambda>_.
     bindE (query f SelectFinal (select_final (sp_id p))) (\<lambda>aggRes.
       if (case aggRes of [] \<Rightarrow> False | final # _ \<Rightarrow> final)
       then throwE (AggregateIsFinalError (sp_id p))
       else bindE (aggregate_step f p)
              (\<lambda>_. bindE (insert_events f p 0 (sp_events p)) (\<lambda>_. pg_commit f))))"
  unfolding saveEvents_txn_def aggregate_step_def by (rule refl)

lemma select_final_query:
  "query f SelectFinal (select_final aid) c = (Inr rows, c') \<Longrightarrow>
     c' = c \<and> rows = (case aggregates (view c) aid of None \<Rightarrow> [] | Some r \<Rightarrow> [agg_final r])"
  by (auto dest!: query_Inr simp: select_final_def put_tables_def view_def split: option.splits)

lemma saveEvents_txn_Inr:
  assumes "saveEvents_txn f p \<lparr>durable = db, txn = None\<rparr> = (Inr u, c')"
  shows "head_matches p db \<and>
         c' = \<lparr>durable = db\<lparr>aggregates := (aggregates db)(sp_id p \<mapsto> new_head p),
                            events := events db @ rows_from p 0 (sp_events p)\<rparr>,
               txn = None\<rparr>"
proof -
  let ?c0 = "\<lparr>durable = db, txn = None\<rparr>"
  let ?c1 = "\<lparr>durable = db, txn = Some db\<rparr>"
  from assms obtain rows c2 c3 c4 where
    sel: "query f SelectFinal (select_final (sp_id p)) ?c1 = (Inr rows, c2)"
    and nofin: "\<not> (case rows of [] \<Rightarrow> False | final # _ \<Rightarrow> final)"
    and agg: "aggregate_step f p c2 = (Inr (), c3)"
    and ins: "insert_events f p 0 (sp_events p) c3 = (Inr (), c4)"
    and com: "pg_commit f c4 = (Inr u, c')"
    unfolding saveEvents_txn_alt
    by (auto dest!: bindE_Inr pg_begin_Inr simp: view_def throwE_def split: if_splits)
  from sel have c2: "c2 = ?c1" by (auto dest: select_final_query)
  from aggregate_step_Inr [OF agg] c2 have hm: "head_matches p db"
    and c3: "c3 = \<lparr>durable = db, txn = Some (db\<lparr>aggregates := (aggregates db)(sp_id p \<mapsto> new_head p)\<rparr>)\<rparr>"
    by auto
  from insert_events_Inr [OF ins] c3 have
    c4: "c4 = \<lparr>durable = db, txn = Some (db\<lparr>aggregates := (aggregates db)(sp_id p \<mapsto> new_head p),
                                           events := events db @ rows_from p 0 (sp_events p)\<rparr>)\<rparr>"
    by auto
  from pg_commit_Inr [OF com] c4 hm show ?thesis by (simp add: view_def)
qed

lemma saveEvents_txn_Inl:
  assumes "saveEvents_txn f p \<lparr>durable = db, txn = None\<rparr> = (Inl e, c')"
  shows "durable c' = db"
proof -
  let ?c0 = "\<lparr>durable = db, txn = None\<rparr>"
  let ?c1 = "\<lparr>durable = db, txn = Some db\<rparr>"
  let ?rest = "\<lambda>aggRes.
       if (case aggRes of [] \<Rightarrow> False | final # _ \<Rightarrow> final)
       then throwE (AggregateIsFinalError (sp_id p))
       else bindE (aggregate_step f p)
              (\<lambda>_. bindE (insert_events f p 0 (sp_events p)) (\<lambda>_. pg_commit f))"
  from assms have
    "bindE (pg_begin f) (\<lambda>_. bindE (query f SelectFinal (select_final (sp_id p))) ?rest) ?c0
       = (Inl e, c')"
    unfolding saveEvents_txn_alt .
  from bindE_Inl [OF this] consider
    (start) "pg_begin f ?c0 = (Inl e, c')"
    | (body) u c1 where "pg_begin f ?c0 = (Inr u, c1)"
        "bindE (query f SelectFinal (select_final (sp_id p))) ?rest c1 = (Inl e, c')"
    by blast
  then show ?thesis
  proof cases
    case start
    then show ?thesis by (auto dest: pg_begin_Inl)
  next
    case body
    from pg_begin_Inr [OF body(1)] have c1: "c1 = ?c1" by (simp add: view_def)
    from bindE_Inl [OF body(2)] c1 consider
      (sel) "query f SelectFinal (select_final (sp_id p)) ?c1 = (Inl e, c')"
      | (after) rows c2 where "query f SelectFinal (select_final (sp_id p)) ?c1 = (Inr rows, c2)"
          "?rest rows c2 = (Inl e, c')"
      by blast
    then show ?thesis
    proof cases
      case sel
      then show ?thesis by (auto dest: query_Inl)
    next
      case after
      from select_final_query [OF after(1)] have c2: "c2 = ?c1" by simp
      show ?thesis
      proof (cases "case rows of [] \<Rightarrow> False | final # _ \<Rightarrow> final")
        case True
        with after(2) c2 show ?thesis by (auto simp: throwE_def)
      next
        case False
        with after(2) c2 consider
          (agg) "aggregate_step f p ?c1 = (Inl e, c')"
          | (ins) c3 where "aggregate_step f p ?c1 = (Inr (), c3)"
              "insert_events f p 0 (sp_events p) c3 = (Inl e, c')"
          | (com) c3 c4 where "aggregate_step f p ?c1 = (Inr (), c3)"
              "insert_events f p 0 (sp_events p) c3 = (Inr (), c4)"
              "pg_commit f c4 = (Inl e, c')"
          by (auto dest!: bindE_Inl)
        then show ?thesis
        proof cases
          case agg
          then show ?thesis by (auto dest: aggregate_step_in_txn)
        next
          case ins
          from aggregate_step_in_txn [OF ins(1)] have "durable c3 = db" "txn c3 \<noteq> None" by auto
          with insert_events_Inl [OF ins(2)] show ?thesis by simp
        next
          case com
          from aggregate_step_in_txn [OF com(1)] have c3: "durable c3 = db" "txn c3 \<noteq> None" by auto
          then obtain t where "txn c3 = Some t" by auto
          from insert_events_Inr [OF com(2) this] c3 have "durable c4 = db" by simp
          with pg_commit_Inl [OF com(3)] show ?thesis by simp
        qed
      qed
    qed
  qed
qed

lemma saveEvents_attempt_failure:
  "saveEvents_attempt f p db = (Some e, db') \<Longrightarrow> db' = db"
  by (auto simp: saveEvents_attempt_def pg_rollback_def
           split: option.splits prod.splits sum.splits dest: saveEvents_txn_Inl)

lemma saveEvents_attempt_success:
  "saveEvents_attempt f p db = (None, db') \<Longrightarrow>
     head_matches p db \<and>
     db' = db\<lparr>aggregates := (aggregates db)(sp_id p \<mapsto> new_head p),
              events := events db @ rows_from p 0 (sp_events p)\<rparr>"
  by (auto simp: saveEvents_attempt_def split: option.splits prod.splits sum.splits
           dest: saveEvents_txn_Inr)


section \<open>The retry loop\<close>

declare backOff_from.simps [simp del]

lemma backOff_from_invariant:
  assumes step: "\<And>n s r s'. request n s = (r, s') \<Longrightarrow> P s \<Longrightarrow> P s'"
  shows "backOff_from opts retry request attempt s = (r, s', w) \<Longrightarrow> P s \<Longrightarrow> P s'"
proof (induction "numOfAttempts opts - attempt" arbitrary: attempt s r s' w)
  case 0
  then show ?case by (simp add: backOff_from.simps [of opts retry request attempt])
next
  case (Suc d)
  then have lt: "\<not> attempt \<ge> numOfAttempts opts" by simp
  obtain r1 s1 where req: "request attempt s = (r1, s1)" by (cases "request attempt s")
  with step Suc.prems(2) have P1: "P s1" by blast
  show ?case
  proof (cases r1)
    case None
    with req lt Suc.prems(1) P1 show ?thesis
      by (simp add: backOff_from.simps [of opts retry request attempt])
  next
    case (Some e)
    show ?thesis
    proof (cases "\<not> retry e \<or> Suc attempt \<ge> numOfAttempts opts")
      case True
      with req lt Some Suc.prems(1) P1 show ?thesis
        by (auto simp add: backOff_from.simps [of opts retry request attempt])
    next
      case False
      obtain r2 s2 w2 where rec: "backOff_from opts retry request (Suc attempt) s1 = (r2, s2, w2)"
        by (cases "backOff_from opts retry request (Suc attempt) s1")
      from Suc.hyps(2) have "d = numOfAttempts opts - Suc attempt" by simp
      from Suc.hyps(1) [OF this rec P1] have "P s2" .
      moreover from req lt Some False rec Suc.prems(1) have "s' = s2"
        by (auto simp add: backOff_from.simps [of opts retry request attempt])
      ultimately show ?thesis by simp
    qed
  qed
qed

lemma backOff_from_atomic:
  assumes fail: "\<And>n s e s'. request n s = (Some e, s') \<Longrightarrow> s' = s"
  shows "backOff_from opts retry request attempt s = (r, s', w) \<Longrightarrow>
           (r \<noteq> None \<and> s' = s) \<or> (r = None \<and> (\<exists>k. request k s = (None, s')))"
proof (induction "numOfAttempts opts - attempt" arbitrary: attempt r s' w)
  case 0
  then show ?case by (auto simp add: backOff_from.simps [of opts retry request attempt])
next
  case (Suc d)
  then have lt: "\<not> attempt \<ge> numOfAttempts opts" by simp
  obtain r1 s1 where req: "request attempt s = (r1, s1)" by (cases "request attempt s")
  show ?case
  proof (cases r1)
    case None
    with req lt Suc.prems(1) show ?thesis
      by (auto simp add: backOff_from.simps [of opts retry request attempt])
  next
    case (Some e)
    with req fail have s1: "s1 = s" by blast
    show ?thesis
    proof (cases "\<not> retry e \<or> Suc attempt \<ge> numOfAttempts opts")
      case True
      with req lt Some Suc.prems(1) s1 show ?thesis
        by (auto simp add: backOff_from.simps [of opts retry request attempt])
    next
      case False
      obtain r2 s2 w2 where rec: "backOff_from opts retry request (Suc attempt) s = (r2, s2, w2)"
        by (cases "backOff_from opts retry request (Suc attempt) s")
      from Suc.hyps(2) have "d = numOfAttempts opts - Suc attempt" by simp
      from Suc.hyps(1) [OF this rec]
      have "(r2 \<noteq> None \<and> s2 = s) \<or> (r2 = None \<and> (\<exists>k. request k s = (None, s2)))" .
      moreover from req lt Some False rec Suc.prems(1) s1 have "s' = s2" "r = r2"
        by (auto simp add: backOff_from.simps [of opts retry request attempt])
      ultimately show ?thesis by simp
    qed
  qed
qed

lemma backOff_from_decisive:
  assumes transient: "\<And>i. n0 \<le> i \<Longrightarrow> i < m \<Longrightarrow> \<exists>e. request i s = (Some e, s) \<and> retry e"
    and m: "n0 \<le> m" "m < numOfAttempts opts"
    and last: "request m s = (r, s')"
    and decisive: "r = None \<or> (\<exists>e. r = Some e \<and> (\<not> retry e \<or> Suc m \<ge> numOfAttempts opts))"
  shows "backOff_from opts retry request n0 s = (r, s', map (delay_of opts) [max 1 n0..<Suc m])"
  using transient m(1)
proof (induction "m - n0" arbitrary: n0)
  case 0
  then have n0: "n0 = m" by simp
  have w: "waits_of opts m = map (delay_of opts) [max 1 m..<Suc m]"
    by (cases m) (simp_all add: waits_of_def)
  from last decisive m(2) show ?case
    unfolding n0 w [symmetric]
    by (auto simp add: backOff_from.simps [of opts retry request m])
next
  case (Suc d)
  then have lt: "n0 < m" by simp
  with Suc.prems(1) [of n0] obtain e where e: "request n0 s = (Some e, s)" "retry e" by auto
  have rec: "backOff_from opts retry request (Suc n0) s
               = (r, s', map (delay_of opts) [max 1 (Suc n0)..<Suc m])"
    using Suc.hyps(1) [of "Suc n0"] Suc.hyps(2) Suc.prems(1) lt by auto
  have w: "waits_of opts n0 @ map (delay_of opts) [max 1 (Suc n0)..<Suc m]
             = map (delay_of opts) [max 1 n0..<Suc m]"
  proof (cases n0)
    case 0
    then show ?thesis by (simp add: waits_of_def)
  next
    case (Suc k)
    with lt have "[Suc k..<Suc m] = Suc k # [Suc (Suc k)..<Suc m]"
      by (simp add: upt_conv_Cons)
    with Suc show ?thesis by (simp add: waits_of_def)
  qed
  from e lt m(2) rec show ?case
    unfolding w [symmetric]
    by (simp add: backOff_from.simps [of opts retry request n0])
qed


section \<open>The event log stays gapless\<close>

lemma rows_from_aggregate_id:
  "r \<in> set (rows_from p i evs) \<Longrightarrow> ev_aggregate_id r = sp_id p"
  by (auto simp: rows_from_def event_row_of_def)

lemma rows_from_versions:
  "map ev_aggregate_version (rows_from p i evs)
     = [sp_version p + int i .. sp_version p + int i + int (length evs) - 1]"
proof (induction evs arbitrary: i)
  case Nil
  then show ?case by (simp add: rows_from_def)
next
  case (Cons ev rest)
  have "map ev_aggregate_version (rows_from p i (ev # rest))
          = (sp_version p + int i) # map ev_aggregate_version (rows_from p (Suc i) rest)"
    by (simp add: rows_from_def event_row_of_def)
  also have "\<dots> = (sp_version p + int i)
                     # [sp_version p + int i + 1 .. sp_version p + int i + int (length rest)]"
    by (simp add: Cons.IH algebra_simps)
  also have "\<dots> = [sp_version p + int i .. sp_version p + int i + int (length rest)]"
    by (simp add: upto_rec1)
  finally show ?case by (simp add: add.assoc)
qed

lemma filter_rows_from_same:
  "filter (\<lambda>r. ev_aggregate_id r = sp_id p) (rows_from p i evs) = rows_from p i evs"
  by (auto simp: filter_id_conv dest: rows_from_aggregate_id)

lemma filter_rows_from_other:
  "aid \<noteq> sp_id p \<Longrightarrow> filter (\<lambda>r. ev_aggregate_id r = aid) (rows_from p i evs) = []"
  by (auto simp: filter_empty_conv dest: rows_from_aggregate_id)

lemma log_ok_empty: "log_ok empty_tables"
  by (simp add: log_ok_def empty_tables_def versions_of_def head_version_def)

lemma log_ok_append:
  assumes ok: "log_ok db" and hm: "head_matches p db"
  shows "log_ok (db\<lparr>aggregates := (aggregates db)(sp_id p \<mapsto> new_head p),
                    events := events db @ rows_from p 0 (sp_events p)\<rparr>)"
    (is "log_ok ?db'")
  unfolding log_ok_def
proof
  fix aid
  show "0 \<le> head_version aid ?db' \<and> versions_of aid ?db' = [1..head_version aid ?db']"
  proof (cases "aid = sp_id p")
    case False
    then have "head_version aid ?db' = head_version aid db" "versions_of aid ?db' = versions_of aid db"
      by (simp_all add: head_version_def versions_of_def filter_rows_from_other)
    with ok show ?thesis by (simp add: log_ok_def)
  next
    case True
    let ?v = "sp_version p" and ?n = "int (length (sp_events p))"
    from ok have old: "0 \<le> head_version aid db" "versions_of aid db = [1..head_version aid db]"
      by (simp_all add: log_ok_def)
    from hm True have prev: "head_version aid db = ?v - 1"
      by (auto simp: head_matches_def head_version_def split: if_splits option.splits)
    have new: "head_version aid ?db' = ?v + ?n - 1"
      using True by (simp add: head_version_def new_head_def)
    have "versions_of aid ?db' = versions_of aid db @ [?v .. ?v + ?n - 1]"
      using True rows_from_versions [of p 0 "sp_events p"]
      by (simp add: versions_of_def filter_rows_from_same)
    also have "\<dots> = [1 .. ?v - 1] @ [?v .. ?v + ?n - 1]"
      using old prev by simp
    also have "\<dots> = [1 .. ?v + ?n - 1]"
    proof (cases "sp_events p")
      case Nil
      then show ?thesis by simp
    next
      case (Cons a list)
      with old(1) prev show ?thesis
        using upto_split1 [of 1 ?v "?v + ?n - 1"] by simp
    qed
    finally show ?thesis using new old(1) prev by simp
  qed
qed

lemma saveEvents_attempt_log_ok:
  "saveEvents_attempt f p db = (r, db') \<Longrightarrow> log_ok db \<Longrightarrow> log_ok db'"
  by (cases r) (auto dest: saveEvents_attempt_failure saveEvents_attempt_success log_ok_append)

lemma finalizeAggregate_txn_Inr:
  assumes "finalizeAggregate_txn f aid \<lparr>durable = db, txn = None\<rparr> = (Inr u, c')"
  shows "\<exists>t. set_aggregate_final aid db = Inr ((), t) \<and>
             (\<exists>t'. set_events_final aid t = Inr ((), t') \<and> c' = \<lparr>durable = t', txn = None\<rparr>)"
  using assms unfolding finalizeAggregate_txn_def
  by (auto dest!: bindE_Inr pg_begin_Inr pg_commit_Inr query_Inr
           simp: view_def put_tables_def)

lemma finalizeAggregate_txn_Inl:
  assumes "finalizeAggregate_txn f aid \<lparr>durable = db, txn = None\<rparr> = (Inl e, c')"
  shows "durable c' = db"
proof -
  let ?c0 = "\<lparr>durable = db, txn = None\<rparr>"
  let ?c1 = "\<lparr>durable = db, txn = Some db\<rparr>"
  from assms [unfolded finalizeAggregate_txn_def] bindE_Inl consider
    (start) "pg_begin f ?c0 = (Inl e, c')"
    | (body) u c1 where "pg_begin f ?c0 = (Inr u, c1)"
        "bindE (query f SetAggregateFinal (set_aggregate_final aid)) (\<lambda>_.
           bindE (query f SetEventsFinal (set_events_final aid)) (\<lambda>_. pg_commit f)) c1 = (Inl e, c')"
    by blast
  then show ?thesis
  proof cases
    case start
    then show ?thesis by (auto dest: pg_begin_Inl)
  next
    case body
    from pg_begin_Inr [OF body(1)] have c1: "c1 = ?c1" by (simp add: view_def)
    from bindE_Inl [OF body(2)] consider
      (q1) "query f SetAggregateFinal (set_aggregate_final aid) c1 = (Inl e, c')"
      | (rest) u2 c2 where "query f SetAggregateFinal (set_aggregate_final aid) c1 = (Inr u2, c2)"
          "bindE (query f SetEventsFinal (set_events_final aid)) (\<lambda>_. pg_commit f) c2 = (Inl e, c')"
      by blast
    then show ?thesis
    proof cases
      case q1
      with c1 show ?thesis by (auto dest: query_Inl)
    next
      case rest
      from query_in_txn [OF rest(1)] c1 have c2: "durable c2 = db" "txn c2 \<noteq> None" by auto
      from bindE_Inl [OF rest(2)] consider
        (q2) "query f SetEventsFinal (set_events_final aid) c2 = (Inl e, c')"
        | (com) u3 c3 where "query f SetEventsFinal (set_events_final aid) c2 = (Inr u3, c3)"
            "pg_commit f c3 = (Inl e, c')"
        by blast
      then show ?thesis
      proof cases
        case q2
        with c2 show ?thesis by (auto dest: query_Inl)
      next
        case com
        from query_in_txn [OF com(1)] c2 have "durable c3 = db" by auto
        with pg_commit_Inl [OF com(2)] show ?thesis by simp
      qed
    qed
  qed
qed

lemma finalizeAggregate_attempt_failure:
  "finalizeAggregate_attempt f aid db = (Some e, db') \<Longrightarrow> db' = db"
  by (auto simp: finalizeAggregate_attempt_def pg_rollback_def
           split: option.splits prod.splits sum.splits dest: finalizeAggregate_txn_Inl)

lemma versions_mark_final:
  "map ev_aggregate_version
     (filter (\<lambda>r. ev_aggregate_id r = a)
        (map (\<lambda>r. if ev_aggregate_id r = aid then r\<lparr>ev_final := True\<rparr> else r) xs))
   = map ev_aggregate_version (filter (\<lambda>r. ev_aggregate_id r = a) xs)"
  by (induction xs) auto

lemma finalizeAggregate_attempt_success:
  "finalizeAggregate_attempt f aid db = (None, db') \<Longrightarrow>
     (\<forall>a. head_version a db' = head_version a db) \<and> (\<forall>a. versions_of a db' = versions_of a db)"
proof -
  assume "finalizeAggregate_attempt f aid db = (None, db')"
  then obtain u c' where "finalizeAggregate_txn f aid \<lparr>durable = db, txn = None\<rparr> = (Inr u, c')"
    and "db' = durable c'"
    by (auto simp: finalizeAggregate_attempt_def split: option.splits prod.splits sum.splits)
  with finalizeAggregate_txn_Inr obtain t where
    t: "set_aggregate_final aid db = Inr ((), t)" and db': "set_events_final aid t = Inr ((), db')"
    by fastforce
  from t have t_events: "events t = events db"
    and t_head: "\<And>a. head_version a t = head_version a db"
    by (auto simp: set_aggregate_final_def head_version_def split: option.splits if_splits)
  from db' have agg: "aggregates db' = aggregates t"
    and ev: "events db' = map (\<lambda>r. if ev_aggregate_id r = aid then r\<lparr>ev_final := True\<rparr> else r) (events t)"
    by (auto simp: set_events_final_def)
  have "versions_of a db' = versions_of a t" for a
    unfolding versions_of_def ev by (rule versions_mark_final)
  with t_events t_head agg show ?thesis
    by (simp add: head_version_def versions_of_def)
qed

lemma finalizeAggregate_attempt_log_ok:
  "finalizeAggregate_attempt f aid db = (r, db') \<Longrightarrow> log_ok db \<Longrightarrow> log_ok db'"
  by (cases r) (auto dest: finalizeAggregate_attempt_failure finalizeAggregate_attempt_success
                     simp: log_ok_def)

lemma run_call_log_ok: "log_ok db \<Longrightarrow> log_ok (snd (run_call opts c db))"
proof (cases c)
  case (SaveEvents p envs)
  assume ok: "log_ok db"
  obtain r db' w where res: "saveEvents opts envs p db = (r, db', w)"
    by (cases "saveEvents opts envs p db")
  have "log_ok db'"
  proof (cases "sp_version p > 0")
    case False
    with res ok show ?thesis by (simp add: saveEvents_def)
  next
    case True
    with res have "backOff_from
        (\<lparr>startingDelay = retryStartingDelay opts, maxDelay = Some (retryMaxDelay opts),
          numOfAttempts = retryMaxAttempts opts\<rparr>\<lparr>numOfAttempts := max 1 (retryMaxAttempts opts)\<rparr>)
        shouldRetry (\<lambda>attempt. saveEvents_attempt (envs attempt) p) 0 db = (r, db', w)"
      by (simp add: saveEvents_def backOff_def)
    from backOff_from_invariant [where P = log_ok, OF _ this ok] show ?thesis
      by (blast intro: saveEvents_attempt_log_ok)
  qed
  with res SaveEvents show ?thesis by simp
next
  case (FinalizeAggregate aid envs)
  assume ok: "log_ok db"
  obtain r db' w where res: "finalizeAggregate envs aid db = (r, db', w)"
    by (cases "finalizeAggregate envs aid db")
  then have "backOff_from (library_default_options\<lparr>numOfAttempts := max 1 (numOfAttempts library_default_options)\<rparr>)
        shouldRetry (\<lambda>attempt. finalizeAggregate_attempt (envs attempt) aid) 0 db = (r, db', w)"
    by (simp add: finalizeAggregate_def backOff_def)
  from backOff_from_invariant [where P = log_ok, OF _ this ok] have "log_ok db'"
    by (blast intro: finalizeAggregate_attempt_log_ok)
  with res FinalizeAggregate show ?thesis by simp
qed

lemma run_calls_log_ok: "log_ok db \<Longrightarrow> log_ok (run_calls opts cs db)"
  by (induction cs arbitrary: db) (auto intro: run_call_log_ok)

lemma fold_max_upto: "0 \<le> n \<Longrightarrow> fold max [1..n] (0::int) = n"
proof (induction n rule: int_ge_induct)
  case base
  then show ?case by simp
next
  case (step i)
  then have "[1..i + 1] = [1..i] @ [i + 1]" by (simp add: upto_rec2)
  with step show ?case by simp
qed

lemma log_ok_log_end: "log_ok db \<Longrightarrow> log_end aid db = head_version aid db"
  by (simp add: log_ok_def log_end_def fold_max_upto)

lemma sort_key_versions:
  assumes "\<forall>r \<in> set rows. ev_aggregate_id r = aid"
    and "sorted (map ev_aggregate_version rows)"
  shows "sort_key (\<lambda>r. (ev_aggregate_id r, ev_aggregate_version r)) rows = rows"
proof -
  from assms(2) have "sorted_wrt (\<lambda>x y. ev_aggregate_version x \<le> ev_aggregate_version y) rows"
    by (simp add: sorted_map)
  then have "sorted_wrt (\<lambda>x y. (ev_aggregate_id x, ev_aggregate_version x)
                              \<le> (ev_aggregate_id y, ev_aggregate_version y)) rows"
    by (rule sorted_wrt_mono_rel [rotated]) (use assms(1) in auto)
  then have "sorted (map (\<lambda>r. (ev_aggregate_id r, ev_aggregate_version r)) rows)"
    by (simp add: sorted_map)
  then show ?thesis by (rule sort_key_id_if_sorted)
qed

lemma listEvents_versions:
  assumes "log_ok db" and "version = None \<or> version = Some 0"
  shows "map e_aggregate_version (listEvents (Some (aid, version)) None db)
           = [1..head_version aid db]"
proof -
  let ?rows = "filter (\<lambda>r. ev_aggregate_id r = aid) (events db)"
  from assms(2) have m: "matches (Some (aid, version)) None = (\<lambda>r. ev_aggregate_id r = aid)"
    by (auto simp: matches_def fun_eq_iff)
  from assms(1) have v: "map ev_aggregate_version ?rows = [1..head_version aid db]"
    by (simp add: log_ok_def versions_of_def)
  then have "sorted (map ev_aggregate_version ?rows)" by simp
  then have "sort_key (\<lambda>r. (ev_aggregate_id r, ev_aggregate_version r)) ?rows = ?rows"
    by (intro sort_key_versions [of _ aid]) auto
  with m v show ?thesis
    by (simp add: listEvents_def event_of_row_def comp_def)
qed


section \<open>saveEvents: outcomes\<close>

lemma saveEvents_backOff:
  "sp_version p > 0 \<Longrightarrow>
   saveEvents opts envs p db =
     backOff_from \<lparr>startingDelay = retryStartingDelay opts, maxDelay = Some (retryMaxDelay opts),
                   numOfAttempts = max 1 (retryMaxAttempts opts)\<rparr>
       shouldRetry (\<lambda>attempt. saveEvents_attempt (envs attempt) p) 0 db"
  by (simp add: saveEvents_def backOff_def)

lemma saveEvents_atomic_aux:
  assumes "saveEvents opts envs p db = (r, db', waits)"
  shows "(r = None \<and> head_matches p db \<and>
          db' = db\<lparr>aggregates := (aggregates db)(sp_id p \<mapsto> new_head p),
                   events := events db @ rows_from p 0 (sp_events p)\<rparr>)
         \<or> (r \<noteq> None \<and> db' = db)"
proof (cases "sp_version p > 0")
  case False
  with assms show ?thesis by (auto simp: saveEvents_def)
next
  case True
  from assms have "backOff_from \<lparr>startingDelay = retryStartingDelay opts, maxDelay = Some (retryMaxDelay opts),
                   numOfAttempts = max 1 (retryMaxAttempts opts)\<rparr>
       shouldRetry (\<lambda>attempt. saveEvents_attempt (envs attempt) p) 0 db = (r, db', waits)"
    by (simp add: saveEvents_backOff [OF True])
  from backOff_from_atomic [OF _ this] 
  have "(r \<noteq> None \<and> db' = db) \<or> (r = None \<and> (\<exists>k. saveEvents_attempt (envs k) p db = (None, db')))"
    by (blast dest: saveEvents_attempt_failure)
  then show ?thesis by (auto dest: saveEvents_attempt_success)
qed

lemma first_attempt_final:
  assumes "is_final (sp_id p) db" 
  shows "saveEvents_attempt no_faults p db = (Some (AggregateIsFinalError (sp_id p)), db)"
  using assms
  by (auto simp: saveEvents_attempt_def saveEvents_txn_def no_faults_def is_final_def bindE_def
        pg_begin_def query_def select_final_def view_def put_tables_def throwE_def pg_rollback_def
        split: option.splits)

lemma first_attempt_conflict:
  assumes "\<not> is_final (sp_id p) db" and "head_version (sp_id p) db \<noteq> sp_version p - 1"
  shows "saveEvents_attempt no_faults p db
           = (Some (AggregateVersionConflictError (sp_id p) (sp_version p)), db)"
  using assms
  by (auto simp: saveEvents_attempt_def saveEvents_txn_def no_faults_def is_final_def bindE_def
        pg_begin_def query_def select_final_def view_def put_tables_def throwE_def pg_rollback_def
        catchE_def insert_aggregate_def update_aggregate_def head_version_def
        split: option.splits)

lemma shouldRetry_iff: "shouldRetry e \<longleftrightarrow> e = PgError ''40001'' \<or> e = PgError ''40P01''"
  by (cases e) (auto simp: shouldRetry_def retryCodes_def)

lemma saveEvents_decisive:
  assumes v: "sp_version p > 0"
    and n: "n < max 1 (retryMaxAttempts opts)"
    and transient: "\<forall>i<n. \<exists>e. fst (saveEvents_attempt (envs i) p db) = Some e \<and> shouldRetry e"
    and last: "saveEvents_attempt (envs n) p db = (r, db')"
    and decisive: "r = None \<or> (\<exists>e. r = Some e \<and> (\<not> shouldRetry e \<or> Suc n = max 1 (retryMaxAttempts opts)))"
  shows "saveEvents opts envs p db =
           (r, db', map (\<lambda>k. min (retryStartingDelay opts * 2 ^ (k - 1)) (retryMaxDelay opts)) [1..<Suc n])"
proof -
  let ?o = "\<lparr>startingDelay = retryStartingDelay opts, maxDelay = Some (retryMaxDelay opts),
                   numOfAttempts = max 1 (retryMaxAttempts opts)\<rparr>"
  have t: "\<exists>e. saveEvents_attempt (envs i) p db = (Some e, db) \<and> shouldRetry e" if "i < n" for i
  proof -
    from transient that obtain e where e: "fst (saveEvents_attempt (envs i) p db) = Some e" "shouldRetry e"
      by blast
    obtain s where "saveEvents_attempt (envs i) p db = (Some e, s)"
      using e(1) by (cases "saveEvents_attempt (envs i) p db") simp
    with saveEvents_attempt_failure [OF this] e(2) show ?thesis by blast
  qed
  have "backOff_from ?o shouldRetry (\<lambda>attempt. saveEvents_attempt (envs attempt) p) 0 db
          = (r, db', map (delay_of ?o) [max 1 0..<Suc n])"
    by (rule backOff_from_decisive) (use t n last decisive in auto)
  moreover have "delay_of ?o = (\<lambda>k. min (retryStartingDelay opts * 2 ^ (k - 1)) (retryMaxDelay opts))"
    by (simp add: delay_of_def fun_eq_iff)
  ultimately show ?thesis by (simp add: saveEvents_backOff [OF v])
qed

section \<open>Evaluating the model on concrete inputs\<close>

lemmas pg_defs =
  saveEvents_def backOff_def backOff_from.simps waits_of_def delay_of_def shouldRetry_def
  retryCodes_def default_store_options_def saveEvents_attempt_def saveEvents_txn_def
  bindE_def catchE_def throwE_def returnE_def query_def pg_begin_def pg_commit_def
  pg_rollback_def view_def put_tables_def select_final_def insert_aggregate_def
  update_aggregate_def insert_event_def event_row_of_def spread_def no_faults_def
  unique_violation_def foreign_key_violation_def empty_tables_def
  finalizeAggregate_def finalizeAggregate_attempt_def finalizeAggregate_txn_def
  set_aggregate_final_def set_events_final_def library_default_options_def
  batch_def ev_a_def ev_b_def rows_from_def commit_fails_def flaky_def
  history_one_def history_two_def history_final_def

section \<open>Failure modes and retry of saveEvents\<close>

text \<open>
  C2. \<open>saveEvents\<close> called with aggregate version \<open>v \<ge> 1\<close>:
  \<^item> fails with \<open>AggregateIsFinalError\<close> when the aggregate record is marked final;
  \<^item> fails with \<open>AggregateVersionConflictError(id, v)\<close> when the stored log of that
    aggregate does not end at \<open>v - 1\<close> (the check for a final aggregate comes first in the
    code, so this case is the one of an aggregate that is not final; the store is any
    store reached from the empty one by calls of the adapter);
  \<^item> has the default retry options 100 ms, 1600 ms and 20 attempts, retries exactly the
    errors whose code is 40001 (serialization failure) or 40P01 (deadlock), and behaves
    as follows for every \<open>n\<close> below the attempt limit: when the attempts before \<open>n\<close> all
    raised such an error and attempt \<open>n\<close> succeeds, raises any other error, or is the
    last one allowed, the call returns the outcome of attempt \<open>n\<close> after the waits
    \<open>min (startingDelay * 2 ^ (k - 1)) maxDelay\<close> for \<open>k = 1, ..., n\<close>. With \<open>n = 0\<close>: an
    error that is not in the retry set surfaces from the first attempt, with no wait.
  In the first two cases the first attempt meets no database error of its own.
\<close>

theorem saveEvents_failure_modes:
  assumes v: "sp_version p \<ge> 1"
  shows "(is_final (sp_id p) db \<and> envs 0 = no_faults \<longrightarrow>
            saveEvents opts envs p db = (Some (AggregateIsFinalError (sp_id p)), db, []))
       \<and> (db = run_calls opts' calls empty_tables \<and> \<not> is_final (sp_id p) db
            \<and> log_end (sp_id p) db \<noteq> sp_version p - 1 \<and> envs 0 = no_faults \<longrightarrow>
            saveEvents opts envs p db
              = (Some (AggregateVersionConflictError (sp_id p) (sp_version p)), db, []))
       \<and> (retryStartingDelay default_store_options = 100
            \<and> retryMaxDelay default_store_options = 1600
            \<and> retryMaxAttempts default_store_options = 20)
       \<and> (\<forall>e. shouldRetry e \<longleftrightarrow> e = PgError ''40001'' \<or> e = PgError ''40P01'')
       \<and> (\<forall>n r db'.
             n < max 1 (retryMaxAttempts opts)
             \<and> (\<forall>i<n. \<exists>e. fst (saveEvents_attempt (envs i) p db) = Some e \<and> shouldRetry e)
             \<and> saveEvents_attempt (envs n) p db = (r, db')
             \<and> (r = None \<or> (\<exists>e. r = Some e \<and> (\<not> shouldRetry e
                                     \<or> Suc n = max 1 (retryMaxAttempts opts)))) \<longrightarrow>
             saveEvents opts envs p db
               = (r, db', map (\<lambda>k. min (retryStartingDelay opts * 2 ^ (k - 1)) (retryMaxDelay opts))
                              [1..<Suc n]))"
proof (intro conjI impI allI)
  from v have pos: "sp_version p > 0" by simp
  {
    assume "is_final (sp_id p) db \<and> envs 0 = no_faults"
    then have "saveEvents_attempt (envs 0) p db = (Some (AggregateIsFinalError (sp_id p)), db)"
      by (simp add: first_attempt_final)
    from saveEvents_decisive [where n = 0 and envs = envs and opts = opts, OF pos _ _ this]
    show "saveEvents opts envs p db = (Some (AggregateIsFinalError (sp_id p)), db, [])"
      by (simp add: shouldRetry_def)
  }
  {
    assume a: "db = run_calls opts' calls empty_tables \<and> \<not> is_final (sp_id p) db
            \<and> log_end (sp_id p) db \<noteq> sp_version p - 1 \<and> envs 0 = no_faults"
    then have "log_ok db" by (simp add: run_calls_log_ok log_ok_empty)
    from a log_ok_log_end [OF this, of "sp_id p"]
    have hv: "head_version (sp_id p) db \<noteq> sp_version p - 1" by auto
    from a have nf: "\<not> is_final (sp_id p) db" and e0: "envs 0 = no_faults" by blast+
    from first_attempt_conflict [OF nf hv] e0
    have "saveEvents_attempt (envs 0) p db
                   = (Some (AggregateVersionConflictError (sp_id p) (sp_version p)), db)"
      by simp
    from saveEvents_decisive [where n = 0 and envs = envs and opts = opts, OF pos _ _ this]
    show "saveEvents opts envs p db
              = (Some (AggregateVersionConflictError (sp_id p) (sp_version p)), db, [])"
      by (simp add: shouldRetry_def)
  }
  show "retryStartingDelay default_store_options = 100"
    "retryMaxDelay default_store_options = 1600"
    "retryMaxAttempts default_store_options = 20"
    by (simp_all add: default_store_options_def)
  show "shouldRetry e \<longleftrightarrow> e = PgError ''40001'' \<or> e = PgError ''40P01''" for e
    by (rule shouldRetry_iff)
  show "saveEvents opts envs p db
               = (r, db', map (\<lambda>k. min (retryStartingDelay opts * 2 ^ (k - 1)) (retryMaxDelay opts))
                              [1..<Suc n])"
    if "n < max 1 (retryMaxAttempts opts)
             \<and> (\<forall>i<n. \<exists>e. fst (saveEvents_attempt (envs i) p db) = Some e \<and> shouldRetry e)
             \<and> saveEvents_attempt (envs n) p db = (r, db')
             \<and> (r = None \<or> (\<exists>e. r = Some e \<and> (\<not> shouldRetry e
                                     \<or> Suc n = max 1 (retryMaxAttempts opts))))" for n r db'
    using that by (intro saveEvents_decisive [OF pos]) auto
qed

theorem saveEvents_failure_modes_witness:
  "saveEvents default_store_options (\<lambda>_. no_faults) (batch 2 [ev_b])
       (run_calls default_store_options history_final empty_tables)
     = (Some (AggregateIsFinalError [1]),
        run_calls default_store_options history_final empty_tables, [])
   \<and> saveEvents default_store_options (\<lambda>_. no_faults) (batch 1 [ev_b])
       (run_calls default_store_options history_one empty_tables)
     = (Some (AggregateVersionConflictError [1] 1),
        run_calls default_store_options history_one empty_tables, [])
   \<and> saveEvents default_store_options flaky (batch 1 [ev_a]) empty_tables
     = (None, snd (saveEvents_attempt no_faults (batch 1 [ev_a]) empty_tables), [100, 200])"
proof (intro conjI)
  let ?fin = "run_calls default_store_options history_final empty_tables"
  let ?one = "run_calls default_store_options history_one empty_tables"
  have v2: "sp_version (batch 2 [ev_b]) \<ge> 1" and v1: "sp_version (batch 1 [ev_b]) \<ge> 1"
    and va: "sp_version (batch 1 [ev_a]) \<ge> 1"
    by (simp_all add: batch_def)
  have fin: "is_final (sp_id (batch 2 [ev_b])) ?fin"
    by (simp add: is_final_def pg_defs)
  from saveEvents_failure_modes [OF v2, of ?fin "\<lambda>_. no_faults" default_store_options] fin
  show "saveEvents default_store_options (\<lambda>_. no_faults) (batch 2 [ev_b]) ?fin
          = (Some (AggregateIsFinalError [1]), ?fin, [])"
    by (simp add: batch_def)
  have "\<not> is_final (sp_id (batch 1 [ev_b])) ?one"
    and "log_end (sp_id (batch 1 [ev_b])) ?one \<noteq> sp_version (batch 1 [ev_b]) - 1"
    by (simp_all add: is_final_def log_end_def versions_of_def pg_defs)
  with saveEvents_failure_modes [OF v1, of ?one "\<lambda>_. no_faults" default_store_options
         default_store_options history_one]
  show "saveEvents default_store_options (\<lambda>_. no_faults) (batch 1 [ev_b]) ?one
          = (Some (AggregateVersionConflictError [1] 1), ?one, [])"
    by (simp add: batch_def)
  have limit: "(2::nat) < max 1 (retryMaxAttempts default_store_options)"
    by (simp add: default_store_options_def)
  have transient: "\<forall>i<2. \<exists>e. fst (saveEvents_attempt (flaky i) (batch 1 [ev_a]) empty_tables) = Some e
                             \<and> shouldRetry e"
  proof (intro allI impI)
    fix i :: nat
    assume "i < 2"
    then have "flaky i = commit_fails ''40001''" by (simp add: flaky_def)
    then show "\<exists>e. fst (saveEvents_attempt (flaky i) (batch 1 [ev_a]) empty_tables) = Some e
                    \<and> shouldRetry e"
      by (simp add: pg_defs)
  qed
  have last: "saveEvents_attempt (flaky 2) (batch 1 [ev_a]) empty_tables
                = (None, snd (saveEvents_attempt no_faults (batch 1 [ev_a]) empty_tables))"
    by (simp add: pg_defs)
  from saveEvents_failure_modes [OF va, of empty_tables flaky default_store_options]
  have "\<forall>n r db'.
          n < max 1 (retryMaxAttempts default_store_options)
          \<and> (\<forall>i<n. \<exists>e. fst (saveEvents_attempt (flaky i) (batch 1 [ev_a]) empty_tables) = Some e
                         \<and> shouldRetry e)
          \<and> saveEvents_attempt (flaky n) (batch 1 [ev_a]) empty_tables = (r, db')
          \<and> (r = None \<or> (\<exists>e. r = Some e \<and> (\<not> shouldRetry e
                                  \<or> Suc n = max 1 (retryMaxAttempts default_store_options)))) \<longrightarrow>
          saveEvents default_store_options flaky (batch 1 [ev_a]) empty_tables
            = (r, db', map (\<lambda>k. min (retryStartingDelay default_store_options * 2 ^ (k - 1))
                                    (retryMaxDelay default_store_options)) [1..<Suc n])"
    by blast
  from this [rule_format, of 2 None] limit transient last
  have "saveEvents default_store_options flaky (batch 1 [ev_a]) empty_tables
          = (None, snd (saveEvents_attempt no_faults (batch 1 [ev_a]) empty_tables),
             map (\<lambda>k. min (retryStartingDelay default_store_options * 2 ^ (k - 1))
                          (retryMaxDelay default_store_options)) [1..<Suc 2])"
    by blast
  moreover have "[1..<Suc 2] = [1, 2]" by (simp add: upt_rec)
  ultimately show "saveEvents default_store_options flaky (batch 1 [ev_a]) empty_tables
     = (None, snd (saveEvents_attempt no_faults (batch 1 [ev_a]) empty_tables), [100, 200])"
    by (simp add: default_store_options_def)
qed

section \<open>Atomicity of saveEvents\<close>

text \<open>
  C3. \<open>saveEvents\<close> is atomic: either the whole batch becomes durable (every event row
  of the batch is appended and the aggregate record is created or moved to the version
  of the last event), or the call fails and the durable tables are exactly what they
  were, with no prefix of the batch persisted. This holds for every batch, for every
  store and whatever errors the database raises during the attempts.
\<close>

theorem saveEvents_atomic:
  assumes "saveEvents opts envs p db = (r, db', waits)"
  shows "(r = None \<and>
          db' = db\<lparr>aggregates := (aggregates db)(sp_id p \<mapsto>
                      \<lparr>agg_version = sp_version p + int (length (sp_events p)) - 1,
                       agg_timestamp = sp_timestamp p, agg_final = False\<rparr>),
                   events := events db @ rows_from p 0 (sp_events p)\<rparr>)
         \<or> (r \<noteq> None \<and> db' = db)"
  using saveEvents_atomic_aux [OF assms] by (auto simp: new_head_def)

theorem saveEvents_atomic_witness:
  "saveEvents default_store_options (\<lambda>_. no_faults) (batch 1 [ev_a, ev_a]) empty_tables
     = (Some (PgError ''23505''), empty_tables, [])
   \<and> saveEvents default_store_options flaky (batch 1 [ev_a, ev_b]) empty_tables
     = (None,
        empty_tables\<lparr>aggregates := (aggregates empty_tables)([1] \<mapsto>
                        \<lparr>agg_version = 2, agg_timestamp = 5, agg_final = False\<rparr>),
                     events := events empty_tables
                               @ rows_from (batch 1 [ev_a, ev_b]) 0 [ev_a, ev_b]\<rparr>,
        [100, 200])"
proof
  show dup: "saveEvents default_store_options (\<lambda>_. no_faults) (batch 1 [ev_a, ev_a]) empty_tables
          = (Some (PgError ''23505''), empty_tables, [])"
    by (simp add: pg_defs)
  obtain r db' where run: "saveEvents default_store_options flaky (batch 1 [ev_a, ev_b]) empty_tables
                        = (r, db', [100, 200])" and r: "r = None"
    by (simp add: pg_defs)
  from saveEvents_atomic [OF run] r show
    "saveEvents default_store_options flaky (batch 1 [ev_a, ev_b]) empty_tables
     = (None,
        empty_tables\<lparr>aggregates := (aggregates empty_tables)([1] \<mapsto>
                        \<lparr>agg_version = 2, agg_timestamp = 5, agg_final = False\<rparr>),
                     events := events empty_tables
                               @ rows_from (batch 1 [ev_a, ev_b]) 0 [ev_a, ev_b]\<rparr>,
        [100, 200])"
    using run by (simp add: batch_def)
qed

section \<open>Versions seen by listEvents\<close>

text \<open>
  C4. Starting from the empty store, after every sequence of \<open>saveEvents\<close> and
  \<open>finalizeAggregate\<close> calls (those that succeed change the store, those that fail leave
  it as it was), for each aggregate id the \<open>aggregate.version\<close> values of the events that
  \<open>listEvents\<close> yields for that id (no lower bound: \<open>version\<close> absent or 0) are exactly
  \<open>1, 2, ..., N\<close> in ascending order, with no gap and no duplicate.
\<close>

theorem listEvents_versions_contiguous:
  assumes "db = run_calls opts calls empty_tables" and "version = None \<or> version = Some 0"
  shows "map e_aggregate_version (listEvents (Some (aid, version)) None db)
           = [1 .. int (length (listEvents (Some (aid, version)) None db))]"
proof -
  from assms(1) have ok: "log_ok db" by (simp add: run_calls_log_ok log_ok_empty)
  then have n: "0 \<le> head_version aid db" by (simp add: log_ok_def)
  from listEvents_versions [OF ok assms(2)]
  have m: "map e_aggregate_version (listEvents (Some (aid, version)) None db)
             = [1..head_version aid db]" .
  then have "length (listEvents (Some (aid, version)) None db) = length [1..head_version aid db]"
    by (metis length_map)
  with n have "int (length (listEvents (Some (aid, version)) None db)) = head_version aid db"
    by simp
  with m show ?thesis by simp
qed

theorem listEvents_versions_contiguous_witness:
  "map e_aggregate_version
     (listEvents (Some ([1], None)) None (run_calls default_store_options history_two empty_tables))
     = [1, 2]
   \<and> map e_aggregate_version
     (listEvents (Some ([1], None)) None (run_calls default_store_options history_two empty_tables))
     = [1 .. int (length (listEvents (Some ([1], None)) None
                            (run_calls default_store_options history_two empty_tables)))]"
proof
  show "map e_aggregate_version
          (listEvents (Some ([1], None)) None
             (run_calls default_store_options history_two empty_tables)) = [1, 2]"
    by (simp add: pg_defs listEvents_def matches_def event_of_row_def)
  show "map e_aggregate_version
     (listEvents (Some ([1], None)) None (run_calls default_store_options history_two empty_tables))
     = [1 .. int (length (listEvents (Some ([1], None)) None
                            (run_calls default_store_options history_two empty_tables)))]"
    by (rule listEvents_versions_contiguous [OF refl]) simp
qed

section \<open>Checkpoint lookup\<close>

text \<open>
  C1. For every call \<open>checkProjectionCheckpoint({projection, aggregate: {id, version}})\<close>
  the result is true exactly when the store holds no checkpoint row for
  \<open>(projection, id)\<close> whose stored version is greater than or equal to the passed
  version; it is false whenever such a row exists.
\<close>

theorem checkProjectionCheckpoint_iff:
  "checkProjectionCheckpoint projection aid version db \<longleftrightarrow>
     \<not> (\<exists>r \<in> set (projection_checkpoints db).
           cp_projection r = projection \<and> cp_aggregate_id r = aid
           \<and> cp_aggregate_version r \<ge> version)"
proof -
  let ?hit = "\<lambda>r. cp_projection r = projection \<and> cp_aggregate_id r = aid
                   \<and> cp_aggregate_version r \<ge> version"
  have "checkProjectionCheckpoint projection aid version db
          \<longleftrightarrow> filter ?hit (projection_checkpoints db) = []"
    by (simp add: checkProjectionCheckpoint_def Let_def)
  also have "\<dots> \<longleftrightarrow> \<not> (\<exists>r \<in> set (projection_checkpoints db). ?hit r)"
    by (simp add: filter_empty_conv)
  finally show ?thesis .
qed

theorem checkProjectionCheckpoint_iff_witness:
  "\<not> checkProjectionCheckpoint ''p'' [1] 3
       (saveProjectionCheckpoint 0 ''p'' [1] 3 empty_tables)
   \<and> checkProjectionCheckpoint ''p'' [1] 4
       (saveProjectionCheckpoint 0 ''p'' [1] 3 empty_tables)"
  using checkProjectionCheckpoint_iff [of "''p''" "[1]" 3
          "saveProjectionCheckpoint 0 ''p'' [1] 3 empty_tables"]
        checkProjectionCheckpoint_iff [of "''p''" "[1]" 4
          "saveProjectionCheckpoint 0 ''p'' [1] 3 empty_tables"]
  by (simp add: saveProjectionCheckpoint_def empty_tables_def)
section \<open>saveSnapshot\<close>

lemma saveSnapshot_existing:
  "snapshot_rows_at (snap_aggregate_id s) (snap_aggregate_version s) db \<noteq> [] \<Longrightarrow>
     saveSnapshot s db = (Some (PgError unique_violation), db)"
  by (auto simp: saveSnapshot_def snapshot_rows_at_def list_ex_iff filter_empty_conv)

lemma saveSnapshot_fresh:
  "snapshot_rows_at (snap_aggregate_id s) (snap_aggregate_version s) db = [] \<Longrightarrow>
     saveSnapshot s db = (None, db\<lparr>snapshots := snapshots db @ [s]\<rparr>)"
  by (auto simp: saveSnapshot_def snapshot_rows_at_def list_ex_iff filter_empty_conv)

text \<open>
  C7 (as amended). \<open>saveSnapshot\<close> is a plain insert under the primary key
  \<open>(aggregate_id, aggregate_version)\<close>, not an upsert: when the store holds no snapshot
  for the key, the first call succeeds and stores its row; a second call with the same
  aggregate id and version fails with a unique violation (SQLSTATE 23505) and changes
  nothing, so exactly one snapshot row remains for that key, the first one.
\<close>

theorem saveSnapshot_insert_once:
  assumes fresh: "snapshot_rows_at (snap_aggregate_id s1) (snap_aggregate_version s1) db = []"
    and same: "snap_aggregate_id s2 = snap_aggregate_id s1"
      "snap_aggregate_version s2 = snap_aggregate_version s1"
    and first: "saveSnapshot s1 db = (r1, db1)"
    and second: "saveSnapshot s2 db1 = (r2, db2)"
  shows "r1 = None \<and> r2 = Some (PgError ''23505'') \<and> db2 = db1
         \<and> snapshot_rows_at (snap_aggregate_id s1) (snap_aggregate_version s1) db2 = [s1]"
proof -
  from saveSnapshot_fresh [OF fresh] first
  have r1: "r1 = None" and db1: "db1 = db\<lparr>snapshots := snapshots db @ [s1]\<rparr>" by simp_all
  from fresh db1 have rows: "snapshot_rows_at (snap_aggregate_id s1) (snap_aggregate_version s1) db1 = [s1]"
    by (simp add: snapshot_rows_at_def)
  with same have "snapshot_rows_at (snap_aggregate_id s2) (snap_aggregate_version s2) db1 \<noteq> []"
    by simp
  from saveSnapshot_existing [OF this] second
  have "r2 = Some (PgError ''23505'')" "db2 = db1" by (simp_all add: unique_violation_def)
  with r1 rows show ?thesis by simp
qed

theorem saveSnapshot_insert_once_witness:
  "snapshot_rows_at (snap_aggregate_id snap_first) (snap_aggregate_version snap_first) empty_tables = []
   \<and> snapshot_rows_at (snap_aggregate_id snap_first) (snap_aggregate_version snap_first)
        (snd (saveSnapshot snap_second (snd (saveSnapshot snap_first empty_tables)))) = [snap_first]
   \<and> fst (saveSnapshot snap_second (snd (saveSnapshot snap_first empty_tables)))
        = Some (PgError ''23505'')"
proof -
  have fresh: "snapshot_rows_at (snap_aggregate_id snap_first) (snap_aggregate_version snap_first)
                 empty_tables = []"
    by (simp add: snapshot_rows_at_def empty_tables_def)
  have same: "snap_aggregate_id snap_second = snap_aggregate_id snap_first"
    "snap_aggregate_version snap_second = snap_aggregate_version snap_first"
    by (simp_all add: snap_first_def snap_second_def)
  from saveSnapshot_insert_once [OF fresh same surjective_pairing surjective_pairing] fresh
  show ?thesis by (simp add: saveSnapshot_def snap_first_def snap_second_def empty_tables_def)
qed

text \<open>
  C7 as stated fails: two snapshots with the same key and different states, saved one
  after the other into the empty store. The second call is rejected and the row of the
  first stays.
\<close>

theorem saveSnapshot_upsert_counterexample:
  "fst (saveSnapshot snap_first empty_tables) = None
   \<and> fst (saveSnapshot snap_second (snd (saveSnapshot snap_first empty_tables)))
       = Some (PgError ''23505'')
   \<and> snapshot_rows_at [1] 10
       (snd (saveSnapshot snap_second (snd (saveSnapshot snap_first empty_tables))))
       = [snap_first]
   \<and> snap_first \<noteq> snap_second"
  by (simp add: saveSnapshot_def snapshot_rows_at_def snap_first_def snap_second_def
        empty_tables_def unique_violation_def)

section \<open>Broker fan-out\<close>

text \<open>
  C5. For every event the Broker receives from the \<open>main\<close> stream (to which it
  subscribes in raw mode): when \<open>config.findStreams(event.type)\<close> returns a non-empty
  list, the Broker makes one \<open>sendEvents\<close> call in raw mode with exactly one batch per
  returned stream, in order, each batch holding exactly that one event; when the list
  is empty it sends nothing.
\<close>

theorem broker_fan_out:
  assumes "config_findStreams (e_type ev) c = (found, c')"
  shows "(found \<noteq> [] \<longrightarrow>
            fst (broker_handle config_findStreams ev c)
              = [\<lparr>sc_batches = map (\<lambda>stream. (stream, [ev])) found, sc_raw = True\<rparr>])
       \<and> (found = [] \<longrightarrow> fst (broker_handle config_findStreams ev c) = [])
       \<and> broker_subscription = \<lparr>sub_stream = ''main'', sub_raw = True\<rparr>"
  using assms by (simp add: broker_handle_def broker_subscription_def)

lemmas config_defs = findStreams_def mongo_findStreams_def lru_get_def lru_set_def is_stale_def
  select_streams_def saveStream_def new_config_adapter_def demo_config_def Let_def

theorem broker_fan_out_witness:
  "fst (broker_handle (findStreams 3) (demo_event 2 1) demo_config)
     = [\<lparr>sc_batches = [(''A'', [demo_event 2 1]), (''B'', [demo_event 2 1])], sc_raw = True\<rparr>]
   \<and> fst (broker_handle (findStreams 3) (demo_event 9 1) demo_config) = []"
proof
  have f2: "findStreams 3 (e_type (demo_event 2 1)) demo_config
              = ([''A'', ''B''], snd (findStreams 3 2 demo_config))"
    by (simp add: config_defs demo_event_def)
  from broker_fan_out [where config_findStreams = "findStreams 3" and ev = "demo_event 2 1", OF f2]
  show "fst (broker_handle (findStreams 3) (demo_event 2 1) demo_config)
     = [\<lparr>sc_batches = [(''A'', [demo_event 2 1]), (''B'', [demo_event 2 1])], sc_raw = True\<rparr>]"
    by simp
  have f9: "findStreams 3 (e_type (demo_event 9 1)) demo_config
              = ([], snd (findStreams 3 9 demo_config))"
    by (simp add: config_defs demo_event_def)
  from broker_fan_out [where config_findStreams = "findStreams 3" and ev = "demo_event 9 1", OF f9]
  show "fst (broker_handle (findStreams 3) (demo_event 9 1) demo_config) = []"
    by simp
qed

section \<open>The cache of findStreams\<close>

text \<open>
  The guard \<open>if (!docs)\<close> of the Mongo adapter never fires, \<open>find\<close> resolving to an array:
  the lookup result reaches \<open>cache.set\<close> there as it does in the Postgres adapter.
\<close>

lemma mongo_findStreams_eq: "mongo_findStreams now T a = findStreams now T a"
  by (simp add: mongo_findStreams_def findStreams_def select_streams_def Let_def split: prod.splits)
















section \<open>Projection: handling one event\<close>

text \<open>
  C6. In \<open>handleEvent\<close>, \<open>saveProjectionCheckpoint\<close> is called if and only if a handler
  for the event type exists, \<open>checkProjectionCheckpoint\<close> returned true and the handler
  completed without throwing (and then the call sequence is check, handle, save). When
  the handler throws, the error is rethrown to the caller, the subscriber's retry loop,
  and the checkpoint table is untouched. When the event is a duplicate or has no
  handler, neither the handler nor \<open>saveProjectionCheckpoint\<close> is invoked.
\<close>

theorem handleEvent_checkpoint:
  "(list_ex is_save (hd_calls (handleEvent now ev proj db)) \<longleftrightarrow>
      (\<exists>h. map_of (p_eventHandlers proj) (e_type ev) = Some h
           \<and> checkProjectionCheckpoint (p_id proj) (e_aggregate_id ev) (e_aggregate_version ev) db
           \<and> fst (h_handle h (p_state proj) ev) = None))
   \<and> (list_ex is_save (hd_calls (handleEvent now ev proj db)) \<longrightarrow>
        hd_thrown (handleEvent now ev proj db) = None
        \<and> hd_calls (handleEvent now ev proj db)
            = [CheckProjectionCheckpoint (p_id proj) (e_aggregate_id ev) (e_aggregate_version ev),
               Handle (e_type ev),
               SaveProjectionCheckpoint (p_id proj) (e_aggregate_id ev) (e_aggregate_version ev)]
        \<and> hd_store (handleEvent now ev proj db)
            = saveProjectionCheckpoint now (p_id proj) (e_aggregate_id ev)
                (e_aggregate_version ev) db)
   \<and> (\<forall>h err. map_of (p_eventHandlers proj) (e_type ev) = Some h
         \<and> checkProjectionCheckpoint (p_id proj) (e_aggregate_id ev) (e_aggregate_version ev) db
         \<and> fst (h_handle h (p_state proj) ev) = Some err \<longrightarrow>
         hd_thrown (handleEvent now ev proj db) = Some err
         \<and> hd_store (handleEvent now ev proj db) = db
         \<and> \<not> list_ex is_save (hd_calls (handleEvent now ev proj db)))
   \<and> (map_of (p_eventHandlers proj) (e_type ev) = None
        \<or> \<not> checkProjectionCheckpoint (p_id proj) (e_aggregate_id ev) (e_aggregate_version ev) db
        \<longrightarrow>
         hd_thrown (handleEvent now ev proj db) = None
         \<and> hd_store (handleEvent now ev proj db) = db
         \<and> \<not> list_ex is_handle (hd_calls (handleEvent now ev proj db))
         \<and> \<not> list_ex is_save (hd_calls (handleEvent now ev proj db)))"
proof (cases "map_of (p_eventHandlers proj) (e_type ev)")
  case None
  then show ?thesis by (simp add: handleEvent_def Let_def)
next
  case (Some h)
  show ?thesis
  proof (cases "checkProjectionCheckpoint (p_id proj) (e_aggregate_id ev) (e_aggregate_version ev) db")
    case False
    with Some show ?thesis by (simp add: handleEvent_def Let_def)
  next
    case True
    obtain r s' where run: "h_handle h (p_state proj) ev = (r, s')"
      by (cases "h_handle h (p_state proj) ev")
    with Some True show ?thesis
      by (cases r) (simp_all add: handleEvent_def Let_def)
  qed
qed

lemmas projection_defs = handleEvent_def start_def new_Projection_def new_Map_def
  demo_projection_def demo_event_def ok_handler_def bad_handler_def quiet_env_def
  checkProjectionCheckpoint_def saveProjectionCheckpoint_def empty_tables_def Let_def

theorem handleEvent_checkpoint_witness:
  "hd_calls (handleEvent 5 (demo_event 257 1) demo_projection empty_tables)
     = [CheckProjectionCheckpoint ''accounts'' [1] 1, Handle 257,
        SaveProjectionCheckpoint ''accounts'' [1] 1]
   \<and> hd_thrown (handleEvent 5 (demo_event 258 1) demo_projection empty_tables) = Some ''boom''
   \<and> hd_store (handleEvent 5 (demo_event 258 1) demo_projection empty_tables) = empty_tables
   \<and> \<not> list_ex is_handle (hd_calls (handleEvent 6 (demo_event 257 1) demo_projection
          (hd_store (handleEvent 5 (demo_event 257 1) demo_projection empty_tables))))
   \<and> \<not> list_ex is_save (hd_calls (handleEvent 5 (demo_event 300 1) demo_projection empty_tables))"
proof (intro conjI)
  have saved: "list_ex is_save (hd_calls (handleEvent 5 (demo_event 257 1) demo_projection empty_tables))"
    by (simp add: projection_defs)
  with handleEvent_checkpoint [of 5 "demo_event 257 1" demo_projection empty_tables]
  show "hd_calls (handleEvent 5 (demo_event 257 1) demo_projection empty_tables)
     = [CheckProjectionCheckpoint ''accounts'' [1] 1, Handle 257,
        SaveProjectionCheckpoint ''accounts'' [1] 1]"
    by (simp add: demo_projection_def new_Projection_def demo_event_def)
  have throws: "map_of (p_eventHandlers demo_projection) (e_type (demo_event 258 1)) = Some bad_handler
      \<and> checkProjectionCheckpoint (p_id demo_projection) (e_aggregate_id (demo_event 258 1))
           (e_aggregate_version (demo_event 258 1)) empty_tables
      \<and> fst (h_handle bad_handler (p_state demo_projection) (demo_event 258 1)) = Some ''boom''"
    by (simp add: projection_defs)
  with handleEvent_checkpoint [of 5 "demo_event 258 1" demo_projection empty_tables]
  show "hd_thrown (handleEvent 5 (demo_event 258 1) demo_projection empty_tables) = Some ''boom''"
    and "hd_store (handleEvent 5 (demo_event 258 1) demo_projection empty_tables) = empty_tables"
    by blast+
  let ?db = "hd_store (handleEvent 5 (demo_event 257 1) demo_projection empty_tables)"
  have dup: "\<not> checkProjectionCheckpoint (p_id demo_projection) (e_aggregate_id (demo_event 257 1))
           (e_aggregate_version (demo_event 257 1)) ?db"
    by (simp add: projection_defs)
  with handleEvent_checkpoint [of 6 "demo_event 257 1" demo_projection ?db]
  show "\<not> list_ex is_handle (hd_calls (handleEvent 6 (demo_event 257 1) demo_projection ?db))"
    by blast
  have nohandler: "map_of (p_eventHandlers demo_projection) (e_type (demo_event 300 1)) = None"
    by (simp add: projection_defs)
  with handleEvent_checkpoint [of 5 "demo_event 300 1" demo_projection empty_tables]
  show "\<not> list_ex is_save (hd_calls (handleEvent 5 (demo_event 300 1) demo_projection empty_tables))"
    by blast
qed

section \<open>Projection: start\<close>

text \<open>
  C10. \<open>Projection.start\<close> is not re-entrant: once a subscriber is installed, \<open>start\<close>
  throws \<open>Error('already started')\<close>, makes no call on the config or stream adapter and
  leaves the projection as it is. A call that succeeds began without a subscriber,
  registered the projection's distinct event types (unless \<open>disableSaveStream\<close>),
  subscribed once to the projection's own stream, and installed the subscriber, so
  that every further call on that instance throws.
\<close>

theorem start_not_reentrant:
  "(p_subscriber proj \<noteq> None \<longrightarrow> start env proj = (Some (Error ''already started''), [], proj))
   \<and> (\<forall>calls proj'. start env proj = (None, calls, proj') \<longrightarrow>
         p_subscriber proj = None
         \<and> p_subscriber proj' = Some \<lparr>sub_stream = p_id proj, sub_raw = False\<rparr>
         \<and> calls = (if p_disableSaveStream proj then []
                     else [SaveStream (p_id proj)
                             (set_values (map h_type (map snd (p_eventHandlers proj))))])
                   @ [Subscribe \<lparr>sub_stream = p_id proj, sub_raw = False\<rparr>]
         \<and> (\<forall>env'. start env' proj' = (Some (Error ''already started''), [], proj')))"
  by (auto simp: start_def Let_def split: if_splits option.splits)

theorem start_not_reentrant_witness:
  "start quiet_env demo_projection
     = (None, [SaveStream ''accounts'' [257, 258],
               Subscribe \<lparr>sub_stream = ''accounts'', sub_raw = False\<rparr>],
        demo_projection\<lparr>p_subscriber := Some \<lparr>sub_stream = ''accounts'', sub_raw = False\<rparr>\<rparr>)
   \<and> start quiet_env
        (demo_projection\<lparr>p_subscriber := Some \<lparr>sub_stream = ''accounts'', sub_raw = False\<rparr>\<rparr>)
     = (Some (Error ''already started''), [],
        demo_projection\<lparr>p_subscriber := Some \<lparr>sub_stream = ''accounts'', sub_raw = False\<rparr>\<rparr>)"
proof
  show first: "start quiet_env demo_projection
     = (None, [SaveStream ''accounts'' [257, 258],
               Subscribe \<lparr>sub_stream = ''accounts'', sub_raw = False\<rparr>],
        demo_projection\<lparr>p_subscriber := Some \<lparr>sub_stream = ''accounts'', sub_raw = False\<rparr>\<rparr>)"
    by (simp add: projection_defs)
  let ?started = "demo_projection\<lparr>p_subscriber := Some \<lparr>sub_stream = ''accounts'', sub_raw = False\<rparr>\<rparr>"
  from start_not_reentrant [of demo_projection quiet_env] first
  have "\<forall>env'. start env' ?started = (Some (Error ''already started''), [], ?started)"
    by blast
  then show "start quiet_env ?started = (Some (Error ''already started''), [], ?started)"
    by blast
qed

section \<open>Wire codec\<close>

subsection \<open>JSON texts are read back\<close>

















lemma hex_value_digit: "d < 16 \<Longrightarrow> hex_value (hex_digit d) = Some d"
  by (auto simp: hex_value_def hex_digit_def Let_def)

lemma hex4_control:
  assumes "n < 32"
  shows "hex4 CHR ''0'' CHR ''0'' (hex_digit (n div 16)) (hex_digit (n mod 16)) = Some n"
proof -
  from assms have "n div 16 < 16" by simp
  then have a: "hex_value (hex_digit (n div 16)) = Some (n div 16)" by (rule hex_value_digit)
  have b: "hex_value (hex_digit (n mod 16)) = Some (n mod 16)" by (rule hex_value_digit) simp
  have z: "hex_value CHR ''0'' = Some 0" by (simp add: hex_value_def)
  show ?thesis by (simp add: hex4_def a b z)
qed

lemma parse_string_escape_char:
  "parse_string (escape_char c @ t) = map_option (apfst (Cons c)) (parse_string t)"
proof (cases "(of_char c :: nat) < 32")
  case True
  note hex4_control [OF True]
  moreover from True have "(of_char c :: nat) < 256" by simp
  ultimately show ?thesis
    by (auto simp: escape_char_def dquote_def backslash_def)
next
  case False
  then have "c \<noteq> CHR 0x08" "c \<noteq> CHR 0x0C" "c \<noteq> CHR 0x0A" "c \<noteq> CHR 0x0D" "c \<noteq> CHR 0x09"
    by auto
  with False show ?thesis
    by (auto simp: escape_char_def dquote_def backslash_def)
qed

lemma parse_string_escaped:
  "parse_string (concat (map escape_char s) @ dquote # rest) = Some (s, rest)"
  by (induction s) (simp_all add: parse_string_escape_char del: parse_string.simps(2), simp)

lemma parse_string_show_string:
  "show_string s @ rest = dquote # t \<Longrightarrow> parse_string t = Some (s, rest)"
  by (auto simp: show_string_def parse_string_escaped)


lemma follows_simps [simp]:
  "follows []" "follows (CHR '','' # r)" "follows (CHR '']'' # r)" "follows (CHR ''}'' # r)"
  by (simp_all add: follows_def)

lemma skip_ws_Nil [simp]: "skip_ws [] = []"
  by (simp add: skip_ws_def)

lemma skip_ws_Cons [simp]: "\<not> is_ws c \<Longrightarrow> skip_ws (c # r) = c # r"
  by (simp add: skip_ws_def)

lemma not_ws [simp]:
  "\<not> is_ws dquote" "\<not> is_ws CHR ''[''" "\<not> is_ws CHR '']''" "\<not> is_ws CHR ''{''"
  "\<not> is_ws CHR ''}''" "\<not> is_ws CHR '',''" "\<not> is_ws CHR '':''" "\<not> is_ws CHR ''n''"
  "\<not> is_ws CHR ''t''" "\<not> is_ws CHR ''f''" "\<not> is_ws CHR ''-''" "\<not> is_ws (CHR 0x22)"
  by (simp_all add: is_ws_def dquote_def)

lemma digit_not_ws: "is_digit c \<Longrightarrow> \<not> is_ws c"
  by (auto simp: is_digit_def is_ws_def)

lemma skip_ws_follows: "follows rest \<Longrightarrow> skip_ws rest = rest"
  by (cases rest) (auto simp: follows_def skip_ws_Cons)











subsection \<open>Serialized values are restored\<close>






subsection \<open>The round trip of an event\<close>












end
